theory Spec2Isabelle
  imports Complex_Main "HOL-Library.AList"
begin

section \<open>Python values, failures and the math library\<close>

text \<open>
  The module \<^verbatim>\<open>lib/pyclone/model.py\<close> computes with Python numbers. Floats are
  modelled as the reals they approximate (rounding, overflow, infinities and nan are
  outside this model), integers as \<^typ>\<open>int\<close>. Every exception the code can raise is a
  value of \<open>error\<close>, and a computation that may raise returns \<open>error + 'a\<close>.
\<close>

datatype error = ValueError | TypeError | ZeroDivisionError | IndexError | KeyError

definition bind_err :: "error + 'a \<Rightarrow> ('a \<Rightarrow> error + 'b) \<Rightarrow> error + 'b" where
  "bind_err m f = (case m of Inl e \<Rightarrow> Inl e | Inr x \<Rightarrow> f x)"

text \<open>A list comprehension whose body may raise: the first failure ends it.\<close>

fun mapM_err :: "('a \<Rightarrow> error + 'b) \<Rightarrow> 'a list \<Rightarrow> error + 'b list" where
  "mapM_err f [] = Inr []"
| "mapM_err f (x # xs) = bind_err (f x) (\<lambda>y. bind_err (mapM_err f xs) (\<lambda>ys. Inr (y # ys)))"

text \<open>\<^verbatim>\<open>math.log\<close> raises ValueError outside the positive reals.\<close>

definition py_log :: "real \<Rightarrow> error + real" where
  "py_log x = (if x \<le> 0 then Inl ValueError else Inr (ln x))"

text \<open>True division (\<^verbatim>\<open>from __future__ import division\<close>).\<close>

definition py_div :: "real \<Rightarrow> real \<Rightarrow> error + real" where
  "py_div x y = (if y = 0 then Inl ZeroDivisionError else Inr (x / y))"

text \<open>\<^verbatim>\<open>range(n)\<close>, empty when \<open>n \<le> 0\<close>.\<close>

definition py_range :: "int \<Rightarrow> int list" where
  "py_range n = map int [0..<nat n]"

text \<open>\<^verbatim>\<open>xs[i]\<close>; a negative index counts from the end.\<close>

definition getitem :: "'a list \<Rightarrow> int \<Rightarrow> error + 'a" where
  "getitem xs i =
     (if 0 \<le> i \<and> i < int (length xs) then Inr (xs ! nat i)
      else if i < 0 \<and> - int (length xs) \<le> i then Inr (xs ! nat (int (length xs) + i))
      else Inl IndexError)"

text \<open>
  \<^verbatim>\<open>math.lgamma\<close> is the logarithm of the absolute value of the Gamma function. It
  is given here by Euler's product
  \<open>\<Gamma>(x) = 1/x \<cdot> \<Prod>\<^sub>k (1 + 1/k)\<^sup>x / (1 + x/k)\<close> in logarithmic form; \<^const>\<open>ln\<close> of a
  real is the logarithm of its absolute value. At the poles of Gamma, the
  integers \<open>x \<le> 0\<close>, \<^verbatim>\<open>math.lgamma\<close> raises ValueError (math domain error).
\<close>

definition euler_term :: "real \<Rightarrow> nat \<Rightarrow> real" where
  "euler_term x k = x * ln (1 + 1 / real (Suc k)) - ln (1 + x / real (Suc k))"

definition ln_Gamma :: "real \<Rightarrow> real" where
  "ln_Gamma x = - ln x + (\<Sum>k. euler_term x k)"

definition log_gamma :: "real \<Rightarrow> error + real" where
  "log_gamma x = (if x \<le> 0 \<and> x \<in> \<int> then Inl ValueError else Inr (ln_Gamma x))"

section \<open>The helpers of \<^verbatim>\<open>pyclone.utils\<close>\<close>

text \<open>
  \<^verbatim>\<open>log_binomial_coefficient\<close>, \<^verbatim>\<open>log_binomial_likelihood\<close> and
  \<^verbatim>\<open>log_beta_pdf\<close> are imported from \<^verbatim>\<open>pyclone.utils\<close>; the model takes them as
  parameters, each free to raise.
\<close>

record utils =
  log_binomial_coefficient :: "int \<Rightarrow> int \<Rightarrow> error + real"
  log_binomial_likelihood :: "int \<Rightarrow> int \<Rightarrow> real \<Rightarrow> error + real"
  log_beta_pdf :: "real \<Rightarrow> real \<Rightarrow> real \<Rightarrow> error + real"

text \<open>
  Modelled from the spec: \<^verbatim>\<open>pyclone.utils.log_sum_exp\<close> is imported by the module
  and its source is not part of it. The specification gives it as the evaluation of
  \<open>log (\<Sum>\<^sub>i exp x\<^sub>i)\<close> over a finite sequence of log-values. Over an empty sequence the
  sum is 0, where the logarithm is a domain error.
\<close>

definition log_sum_exp :: "real list \<Rightarrow> error + real" where
  "log_sum_exp log_X =
     (if log_X = [] then Inl ValueError else Inr (ln (\<Sum>x\<leftarrow>log_X. exp x)))"

section \<open>DataPoint and Likelihood\<close>

record DataPoint =
  dp_a :: int
  dp_d :: int
  dp_mu_r :: "real list"
  dp_mu_v :: "real list"
  dp_delta_r :: "real list"
  dp_delta_v :: "real list"

text \<open>
  An instance of \<^verbatim>\<open>Likelihood\<close>. The cache is an \<^verbatim>\<open>OrderedDict\<close>: an association
  list in insertion order, oldest entry first.
\<close>

record Likelihood =
  lk_a :: int
  lk_d :: int
  log_pi_r :: "real list"
  log_pi_v :: "real list"
  log_binomial_norm_const :: real
  ll_cache :: "(real \<times> real) list"

record BinomialLikelihood = Likelihood +
  mu_r :: "real list"
  mu_v :: "real list"

record BetaBinomialLikelihood = Likelihood +
  bb_mu_r :: "real list"
  alpha_v :: "real list"
  beta_v :: "real list"
  mesh :: "real list"
  log_xi :: real

subsection \<open>\<^verbatim>\<open>Likelihood._get_log_mix_weights\<close>\<close>

text \<open>The inner loop \<^verbatim>\<open>for j, d_j in enumerate(delta)\<close>.\<close>

fun log_numerator_loop :: "nat \<Rightarrow> real \<Rightarrow> (nat \<times> real) list \<Rightarrow> error + real" where
  "log_numerator_loop i log_numerator [] = Inr log_numerator"
| "log_numerator_loop i log_numerator ((j, d_j) # rest) =
     (if i \<noteq> j then
        bind_err (log_gamma d_j) (\<lambda>g. log_numerator_loop i (log_numerator + g) rest)
      else log_numerator_loop i log_numerator rest)"

text \<open>The outer loop \<^verbatim>\<open>for i, d_i in enumerate(delta)\<close>.\<close>

fun log_mix_weights_loop ::
  "real list \<Rightarrow> real \<Rightarrow> real list \<Rightarrow> (nat \<times> real) list \<Rightarrow> error + real list" where
  "log_mix_weights_loop delta log_denominator log_mix_weights [] = Inr log_mix_weights"
| "log_mix_weights_loop delta log_denominator log_mix_weights ((i, d_i) # rest) =
     bind_err (log_gamma (d_i + 1)) (\<lambda>g.
     bind_err (log_numerator_loop i g (enumerate 0 delta)) (\<lambda>log_numerator.
       log_mix_weights_loop delta log_denominator
         (log_mix_weights @ [log_numerator - log_denominator]) rest))"

definition get_log_mix_weights :: "real list \<Rightarrow> error + real list" where
  "get_log_mix_weights delta =
     bind_err (log_gamma (sum_list delta + 1)) (\<lambda>log_denominator.
       log_mix_weights_loop delta log_denominator [] (enumerate 0 delta))"

subsection \<open>\<^verbatim>\<open>Likelihood.__init__\<close> and the shared binomial kernel\<close>

definition Likelihood_init :: "utils \<Rightarrow> DataPoint \<Rightarrow> error + Likelihood" where
  "Likelihood_init U data_point =
     bind_err (get_log_mix_weights (dp_delta_r data_point)) (\<lambda>pi_r.
     bind_err (get_log_mix_weights (dp_delta_v data_point)) (\<lambda>pi_v.
     bind_err (log_binomial_coefficient U (dp_d data_point) (dp_a data_point)) (\<lambda>norm_const.
       Inr \<lparr>lk_a = dp_a data_point, lk_d = dp_d data_point,
            log_pi_r = pi_r, log_pi_v = pi_v,
            log_binomial_norm_const = norm_const, ll_cache = []\<rparr>)))"

definition Likelihood_log_binomial_likelihood ::
  "utils \<Rightarrow> 'z Likelihood_scheme \<Rightarrow> real \<Rightarrow> real \<Rightarrow> real \<Rightarrow> error + real" where
  "Likelihood_log_binomial_likelihood U self phi m_r m_v =
     (let mu = (1 - phi) * m_r + phi * m_v in
      bind_err (log_binomial_likelihood U (lk_a self) (lk_d self) mu) (\<lambda>l.
        Inr (log_binomial_norm_const self + l)))"

text \<open>
  \<^verbatim>\<open>Likelihood._log_likelihood\<close> is \<^verbatim>\<open>raise NotImplemented\<close>. The constant
  \<^verbatim>\<open>NotImplemented\<close> is not an exception, so the statement raises TypeError.
\<close>

definition Likelihood_log_likelihood :: "'z Likelihood_scheme \<Rightarrow> real \<Rightarrow> error + real" where
  "Likelihood_log_likelihood self phi = Inl TypeError"

subsection \<open>\<^verbatim>\<open>Likelihood.compute_log_likelihood\<close>\<close>

text \<open>\<^verbatim>\<open>OrderedDict.popitem(last=False)\<close> and \<^verbatim>\<open>OrderedDict.__getitem__\<close>.\<close>

definition popitem_first :: "('k \<times> 'v) list \<Rightarrow> error + ('k \<times> 'v) list" where
  "popitem_first c = (case c of [] \<Rightarrow> Inl KeyError | e # rest \<Rightarrow> Inr rest)"

definition cache_getitem :: "('k \<times> 'v) list \<Rightarrow> 'k \<Rightarrow> error + 'v" where
  "cache_getitem c k = (case map_of c k of None \<Rightarrow> Inl KeyError | Some v \<Rightarrow> Inr v)"

text \<open>
  The method call \<^verbatim>\<open>self._log_likelihood(phi)\<close> is dispatched on the class of
  \<^verbatim>\<open>self\<close>; the model takes the method of that class as its first argument.
  Storing under a key is \<^const>\<open>AList.update\<close>: a new key goes to the end, a present
  key keeps its place.
\<close>

definition compute_log_likelihood ::
  "('z Likelihood_scheme \<Rightarrow> real \<Rightarrow> error + real) \<Rightarrow> 'z Likelihood_scheme \<Rightarrow> real
     \<Rightarrow> error + real \<times> 'z Likelihood_scheme" where
  "compute_log_likelihood log_likelihood self phi =
     bind_err
       (if map_of (ll_cache self) phi = None then
          bind_err (log_likelihood self phi) (\<lambda>v.
            let self1 = self\<lparr>ll_cache := AList.update phi v (ll_cache self)\<rparr> in
            if length (ll_cache self1) > 1000 then
              bind_err (popitem_first (ll_cache self1)) (\<lambda>c. Inr (self1\<lparr>ll_cache := c\<rparr>))
            else Inr self1)
        else Inr self)
       (\<lambda>self2. bind_err (cache_getitem (ll_cache self2) phi) (\<lambda>v. Inr (v, self2)))"

text \<open>
  The loop \<^verbatim>\<open>for phi in ...: ll.append(likelihood.compute_log_likelihood(phi))\<close>:
  a sequence of calls on one instance, the instance threaded through.
\<close>

fun compute_all ::
  "('z Likelihood_scheme \<Rightarrow> real \<Rightarrow> error + real) \<Rightarrow> 'z Likelihood_scheme \<Rightarrow> real list
     \<Rightarrow> real list \<Rightarrow> error + real list \<times> 'z Likelihood_scheme" where
  "compute_all log_likelihood self ll [] = Inr (ll, self)"
| "compute_all log_likelihood self ll (phi # rest) =
     bind_err (compute_log_likelihood log_likelihood self phi) (\<lambda>(v, self1).
       compute_all log_likelihood self1 (ll @ [v]) rest)"

section \<open>BinomialLikelihood\<close>

definition BinomialLikelihood_init :: "utils \<Rightarrow> DataPoint \<Rightarrow> error + BinomialLikelihood" where
  "BinomialLikelihood_init U data_point =
     bind_err (Likelihood_init U data_point) (\<lambda>base.
       Inr \<lparr>lk_a = lk_a base, lk_d = lk_d base,
            log_pi_r = log_pi_r base, log_pi_v = log_pi_v base,
            log_binomial_norm_const = log_binomial_norm_const base,
            ll_cache = ll_cache base,
            mu_r = dp_mu_r data_point, mu_v = dp_mu_v data_point\<rparr>)"

text \<open>The inner loop over \<^verbatim>\<open>zip(self.mu_v, self.log_pi_v)\<close>.\<close>

fun Binomial_inner_loop ::
  "utils \<Rightarrow> 'z Likelihood_scheme \<Rightarrow> real \<Rightarrow> real \<Rightarrow> real \<Rightarrow> real list \<Rightarrow> (real \<times> real) list
     \<Rightarrow> error + real list" where
  "Binomial_inner_loop U self phi m_r lp_r ll [] = Inr ll"
| "Binomial_inner_loop U self phi m_r lp_r ll ((m_v, lp_v) # rest) =
     bind_err (Likelihood_log_binomial_likelihood U self phi m_r m_v) (\<lambda>k.
       Binomial_inner_loop U self phi m_r lp_r (ll @ [lp_r + lp_v + k]) rest)"

text \<open>The outer loop over \<^verbatim>\<open>zip(self.mu_r, self.log_pi_r)\<close>.\<close>

fun Binomial_outer_loop ::
  "utils \<Rightarrow> 'z BinomialLikelihood_scheme \<Rightarrow> real \<Rightarrow> real list \<Rightarrow> (real \<times> real) list
     \<Rightarrow> error + real list" where
  "Binomial_outer_loop U self phi ll [] = Inr ll"
| "Binomial_outer_loop U self phi ll ((m_r, lp_r) # rest) =
     bind_err (Binomial_inner_loop U self phi m_r lp_r ll (zip (mu_v self) (log_pi_v self)))
       (\<lambda>ll1. Binomial_outer_loop U self phi ll1 rest)"

definition BinomialLikelihood_log_likelihood ::
  "utils \<Rightarrow> 'z BinomialLikelihood_scheme \<Rightarrow> real \<Rightarrow> error + real" where
  "BinomialLikelihood_log_likelihood U self phi =
     bind_err (Binomial_outer_loop U self phi [] (zip (mu_r self) (log_pi_r self))) log_sum_exp"

section \<open>BetaBinomialLikelihood\<close>

text \<open>\<^verbatim>\<open>_set_beta_params\<close>: the loop over \<^verbatim>\<open>mu_v\<close> filling both lists.\<close>

fun set_beta_params_loop ::
  "real \<Rightarrow> real list \<Rightarrow> real list \<Rightarrow> real list \<Rightarrow> real list \<times> real list" where
  "set_beta_params_loop s alphas betas [] = (alphas, betas)"
| "set_beta_params_loop s alphas betas (m # rest) =
     (let alpha = s * m; beta = s - alpha
      in set_beta_params_loop s (alphas @ [alpha]) (betas @ [beta]) rest)"

definition set_beta_params :: "real list \<Rightarrow> real \<Rightarrow> real list \<times> real list" where
  "set_beta_params m_v s = set_beta_params_loop s [] [] m_v"

text \<open>\<^verbatim>\<open>_set_mesh\<close>: the knots, the bin centres and the log of the bin width.\<close>

definition set_mesh :: "int \<Rightarrow> error + real list \<times> real" where
  "set_mesh mesh_size =
     bind_err (mapM_err (\<lambda>i. py_div (real_of_int i) (real_of_int mesh_size))
                 (py_range (mesh_size + 1))) (\<lambda>knots.
     bind_err (mapM_err (\<lambda>i. bind_err (getitem knots i) (\<lambda>l.
                              bind_err (getitem knots (i + 1)) (\<lambda>r. Inr ((l + r) / 2))))
                 (py_range mesh_size)) (\<lambda>centres.
     bind_err (py_log (real_of_int mesh_size)) (\<lambda>l. Inr (centres, - l))))"

definition BetaBinomialLikelihood_init ::
  "utils \<Rightarrow> DataPoint \<Rightarrow> int \<Rightarrow> real \<Rightarrow> error + BetaBinomialLikelihood" where
  "BetaBinomialLikelihood_init U data_point mesh_size beta_precision =
     bind_err (Likelihood_init U data_point) (\<lambda>base.
     let (alphas, betas) = set_beta_params (dp_mu_v data_point) beta_precision in
     bind_err (set_mesh mesh_size) (\<lambda>(centres, lxi).
       Inr \<lparr>lk_a = lk_a base, lk_d = lk_d base,
            log_pi_r = log_pi_r base, log_pi_v = log_pi_v base,
            log_binomial_norm_const = log_binomial_norm_const base,
            ll_cache = ll_cache base,
            bb_mu_r = dp_mu_r data_point, alpha_v = alphas, beta_v = betas,
            mesh = centres, log_xi = lxi\<rparr>))"

text \<open>\<^verbatim>\<open>_log_beta_binomial_likelihood\<close>: the loop over the mesh.\<close>

fun mesh_loop ::
  "utils \<Rightarrow> 'z BetaBinomialLikelihood_scheme \<Rightarrow> real \<Rightarrow> real \<Rightarrow> real \<Rightarrow> real \<Rightarrow> real list
     \<Rightarrow> real list \<Rightarrow> error + real list" where
  "mesh_loop U self phi m_r a_v b_v log_sum [] = Inr log_sum"
| "mesh_loop U self phi m_r a_v b_v log_sum (m_v # rest) =
     bind_err (Likelihood_log_binomial_likelihood U self phi m_r m_v) (\<lambda>k.
     bind_err (log_beta_pdf U m_v a_v b_v) (\<lambda>b.
       let y_i = k + b in
       mesh_loop U self phi m_r a_v b_v (log_sum @ [y_i + log_xi self]) rest))"

definition log_beta_binomial_likelihood ::
  "utils \<Rightarrow> 'z BetaBinomialLikelihood_scheme \<Rightarrow> real \<Rightarrow> real \<Rightarrow> real \<Rightarrow> real \<Rightarrow> error + real" where
  "log_beta_binomial_likelihood U self phi m_r a_v b_v =
     bind_err (mesh_loop U self phi m_r a_v b_v [] (mesh self)) log_sum_exp"

text \<open>The inner loop over \<^verbatim>\<open>zip(self.alpha_v, self.beta_v, self.log_pi_v)\<close>.\<close>

fun BetaBinomial_inner_loop ::
  "utils \<Rightarrow> 'z BetaBinomialLikelihood_scheme \<Rightarrow> real \<Rightarrow> real \<Rightarrow> real \<Rightarrow> real list
     \<Rightarrow> (real \<times> real \<times> real) list \<Rightarrow> error + real list" where
  "BetaBinomial_inner_loop U self phi m_r lp_r ll [] = Inr ll"
| "BetaBinomial_inner_loop U self phi m_r lp_r ll ((a_v, b_v, lp_v) # rest) =
     bind_err (log_beta_binomial_likelihood U self phi m_r a_v b_v) (\<lambda>k.
       BetaBinomial_inner_loop U self phi m_r lp_r (ll @ [lp_r + lp_v + k]) rest)"

text \<open>The outer loop over \<^verbatim>\<open>zip(self.mu_r, self.log_pi_r)\<close>.\<close>

fun BetaBinomial_outer_loop ::
  "utils \<Rightarrow> 'z BetaBinomialLikelihood_scheme \<Rightarrow> real \<Rightarrow> real list \<Rightarrow> (real \<times> real) list
     \<Rightarrow> error + real list" where
  "BetaBinomial_outer_loop U self phi ll [] = Inr ll"
| "BetaBinomial_outer_loop U self phi ll ((m_r, lp_r) # rest) =
     bind_err (BetaBinomial_inner_loop U self phi m_r lp_r ll
                 (zip (alpha_v self) (zip (beta_v self) (log_pi_v self))))
       (\<lambda>ll1. BetaBinomial_outer_loop U self phi ll1 rest)"

definition BetaBinomialLikelihood_log_likelihood ::
  "utils \<Rightarrow> 'z BetaBinomialLikelihood_scheme \<Rightarrow> real \<Rightarrow> error + real" where
  "BetaBinomialLikelihood_log_likelihood U self phi =
     bind_err (BetaBinomial_outer_loop U self phi [] (zip (bb_mu_r self) (log_pi_r self)))
       log_sum_exp"

section \<open>\<^verbatim>\<open>get_independent_posterior\<close>\<close>

text \<open>The loop over \<^verbatim>\<open>zip(endpoints[:-1], endpoints[1:])\<close>.\<close>

fun bin_centres_loop :: "real list \<Rightarrow> (real \<times> real) list \<Rightarrow> real list" where
  "bin_centres_loop bin_centres [] = bin_centres"
| "bin_centres_loop bin_centres ((left, right) # rest) =
     bin_centres_loop (bin_centres @ [(left + right) / 2]) rest"

definition get_independent_posterior ::
  "utils \<Rightarrow> DataPoint \<Rightarrow> int \<Rightarrow> error + (real \<times> real) list" where
  "get_independent_posterior U data_point num_bins =
     bind_err (BinomialLikelihood_init U data_point) (\<lambda>likelihood.
     bind_err (py_div 1 (real_of_int num_bins)) (\<lambda>bin_width.
     let num_endpoints = num_bins + 1;
         endpoints = map (\<lambda>x. real_of_int x * bin_width) (py_range num_endpoints);
         bin_centres = bin_centres_loop [] (zip (butlast endpoints) (tl endpoints))
     in
     bind_err (compute_all (BinomialLikelihood_log_likelihood U) likelihood [] bin_centres)
       (\<lambda>(ll, likelihood1).
     bind_err (mapM_err (\<lambda>x. bind_err (py_log bin_width) (\<lambda>l. Inr (x + l))) ll) (\<lambda>xs.
     bind_err (log_sum_exp xs) (\<lambda>norm_const.
       let pdf = map (\<lambda>x. exp (x - norm_const)) ll
       in Inr (zip bin_centres pdf))))))"

section \<open>Notions used to state the properties\<close>

text \<open>The poles of Gamma, where \<^const>\<open>log_gamma\<close> raises.\<close>

definition pole :: "real \<Rightarrow> bool" where
  "pole x \<longleftrightarrow> x \<le> 0 \<and> x \<in> \<int>"

text \<open>
  The weight of component \<open>i\<close> in the words of the specification:
  \<open>log_gamma (delta\<^sub>i + 1)\<close>, plus the sum of \<open>log_gamma delta\<^sub>j\<close> over all \<open>j \<noteq> i\<close>, minus
  \<open>log_gamma\<close> of the sum of all entries plus one.
\<close>

definition weight_formula :: "real list \<Rightarrow> nat \<Rightarrow> real" where
  "weight_formula delta i =
     ln_Gamma (delta ! i + 1) + (\<Sum>j \<in> {..<length delta} - {i}. ln_Gamma (delta ! j))
       - ln_Gamma (sum_list delta + 1)"

text \<open>What the inner loop adds for component \<open>i\<close>, and when an iteration of the outer loop raises.\<close>

definition numerator_rest :: "real list \<Rightarrow> nat \<Rightarrow> real" where
  "numerator_rest delta i =
     (\<Sum>p \<leftarrow> enumerate 0 delta. if fst p \<noteq> i then ln_Gamma (snd p) else 0)"

definition raises_at :: "real list \<Rightarrow> nat \<times> real \<Rightarrow> bool" where
  "raises_at delta q \<longleftrightarrow>
     pole (snd q + 1) \<or> (\<exists>p \<in> set (enumerate 0 delta). fst p \<noteq> fst q \<and> pole (snd p))"

text \<open>
  The terms of the two likelihoods in the words of the specification. For the pair
  \<open>(i, j)\<close> of a reference and a variant component, the binomial term is
  \<open>log_pi_r[i] + log_pi_v[j] + kernel (phi, mu_r[i], mu_v[j])\<close>.
\<close>

definition binomial_term ::
  "utils \<Rightarrow> 'z BinomialLikelihood_scheme \<Rightarrow> real \<Rightarrow> nat \<times> nat \<Rightarrow> error + real" where
  "binomial_term U self phi ij =
     bind_err (Likelihood_log_binomial_likelihood U self phi (mu_r self ! fst ij) (mu_v self ! snd ij))
       (\<lambda>k. Inr (log_pi_r self ! fst ij + log_pi_v self ! snd ij + k))"

text \<open>
  The \<open>M\<close> mesh midpoints \<open>(2 i + 1) / (2 M)\<close>; the term of one midpoint \<open>m\<close>,
  \<open>kernel (phi, mu_r, m) + log_beta_pdf (m, alpha, beta) + log (1 / M)\<close>; and the
  beta-binomial term of the pair \<open>(i, j)\<close>: \<open>log_pi_r[i] + log_pi_v[j]\<close> plus the
  log-sum-exp of the midpoint terms.
\<close>

definition mesh_points :: "int \<Rightarrow> real list" where
  "mesh_points M = map (\<lambda>i. (2 * real i + 1) / (2 * real_of_int M)) [0..<nat M]"

definition mesh_term ::
  "utils \<Rightarrow> 'z Likelihood_scheme \<Rightarrow> int \<Rightarrow> real \<Rightarrow> real \<Rightarrow> real \<Rightarrow> real \<Rightarrow> real \<Rightarrow> error + real" where
  "mesh_term U self M phi m_r a b m =
     bind_err (Likelihood_log_binomial_likelihood U self phi m_r m) (\<lambda>k.
     bind_err (log_beta_pdf U m a b) (\<lambda>p. Inr (k + p + ln (1 / real_of_int M))))"

definition beta_binomial_term ::
  "utils \<Rightarrow> 'z BetaBinomialLikelihood_scheme \<Rightarrow> int \<Rightarrow> real \<Rightarrow> nat \<times> nat \<Rightarrow> error + real" where
  "beta_binomial_term U self M phi ij =
     bind_err (bind_err (mapM_err (mesh_term U self M phi (bb_mu_r self ! fst ij)
                                     (alpha_v self ! snd ij) (beta_v self ! snd ij))
                           (mesh_points M)) log_sum_exp)
       (\<lambda>k. Inr (log_pi_r self ! fst ij + log_pi_v self ! snd ij + k))"

text \<open>
  The centres \<open>(i + 1/2) / N\<close> of \<open>N\<close> bins of equal width over \<open>[0, 1]\<close>, and the density
  at a centre: the exponential of the log-likelihood \<open>L\<close> there minus the log-sum-exp
  of \<open>L + log (1 / N)\<close> over all centres.
\<close>

definition bin_centres :: "int \<Rightarrow> real list" where
  "bin_centres N = map (\<lambda>i. (real i + 1 / 2) / real_of_int N) [0..<nat N]"

definition posterior_density :: "(real \<Rightarrow> real) \<Rightarrow> int \<Rightarrow> real \<Rightarrow> real" where
  "posterior_density L N phi =
     exp (L phi - ln (\<Sum>x \<leftarrow> bin_centres N. exp (L x + ln (1 / real_of_int N))))"

text \<open>
  The invariant of the memo cache: every cached value is what the method returns for
  its key. The methods of the concrete classes read the fields set at construction
  and never the cache.
\<close>

definition cache_consistent ::
  "('z Likelihood_scheme \<Rightarrow> real \<Rightarrow> error + real) \<Rightarrow> 'z Likelihood_scheme \<Rightarrow> bool" where
  "cache_consistent f self \<longleftrightarrow> (\<forall>e \<in> set (ll_cache self). f self (fst e) = Inr (snd e))"

definition ignores_cache :: "('z Likelihood_scheme \<Rightarrow> real \<Rightarrow> error + real) \<Rightarrow> bool" where
  "ignores_cache f \<longleftrightarrow> (\<forall>self c. f (self\<lparr>ll_cache := c\<rparr>) = f self)"

text \<open>
  A concrete instance for the examples: the data point of the specification's test
  (\<open>a = 5\<close>, \<open>d = 10\<close>, one component of frequency \<open>1/2\<close> and pseudo-count \<open>1\<close> on each
  side), and helpers that return \<open>0\<close> everywhere.
\<close>

definition example_utils :: utils where
  "example_utils = \<lparr>log_binomial_coefficient = (\<lambda>n k. Inr 0),
     log_binomial_likelihood = (\<lambda>x n mu. Inr 0), log_beta_pdf = (\<lambda>m a b. Inr 0)\<rparr>"

definition example_data_point :: DataPoint where
  "example_data_point = \<lparr>dp_a = 5, dp_d = 10, dp_mu_r = [1/2], dp_mu_v = [1/2],
     dp_delta_r = [1], dp_delta_v = [1]\<rparr>"

text \<open>The instances built from the example data point.\<close>

definition example_likelihood :: Likelihood where
  "example_likelihood = \<lparr>lk_a = 5, lk_d = 10, log_pi_r = [0], log_pi_v = [0],
     log_binomial_norm_const = 0, ll_cache = []\<rparr>"

definition example_binomial :: BinomialLikelihood where
  "example_binomial = \<lparr>lk_a = 5, lk_d = 10, log_pi_r = [0], log_pi_v = [0],
     log_binomial_norm_const = 0, ll_cache = [], mu_r = [1/2], mu_v = [1/2]\<rparr>"

text \<open>The beta-binomial instance of the example data point, mesh size 2 and precision 100.\<close>

definition example_beta_binomial :: BetaBinomialLikelihood where
  "example_beta_binomial = \<lparr>lk_a = 5, lk_d = 10, log_pi_r = [0], log_pi_v = [0],
     log_binomial_norm_const = 0, ll_cache = [],
     bb_mu_r = [1/2], alpha_v = [50], beta_v = [50],
     mesh = [1/4, 3/4], log_xi = ln (1/2)\<rparr>"

section \<open>The logarithm of Gamma\<close>

text \<open>
  The series of \<^const>\<open>ln_Gamma\<close> converges at every positive argument (its terms are
  of order \<open>1/k\<^sup>2\<close>), and the functional equation \<open>\<Gamma>(x + 1) = x \<Gamma>(x)\<close> follows
  by telescoping.
\<close>

lemma summable_inv_sq: "summable (\<lambda>n. 1 / (real (Suc n))\<^sup>2)"
proof -
  have "(\<lambda>n. 2 * inverse (real (Suc n))) \<longlonglongrightarrow> 2 * 0"
    by (intro tendsto_mult tendsto_const LIMSEQ_inverse_real_of_nat)
  then have "(\<lambda>n. 2 * inverse (real (Suc n))) \<longlonglongrightarrow> 0" by simp
  from telescope_summable' [OF this]
  have s: "summable (\<lambda>n. 2 * inverse (real (Suc n)) - 2 * inverse (real (Suc (Suc n))))" .
  have le: "norm (1 / (real (Suc n))\<^sup>2)
      \<le> 2 * inverse (real (Suc n)) - 2 * inverse (real (Suc (Suc n)))" for n
  proof -
    have "2 * inverse (real (Suc n)) - 2 * inverse (real (Suc (Suc n)))
        = 2 / (real (Suc n) * real (Suc (Suc n)))"
      by (simp add: field_simps)
    moreover have "1 / (real (Suc n))\<^sup>2 \<le> 2 / (real (Suc n) * real (Suc (Suc n)))"
    proof -
      have "1 / real (Suc n) \<le> 2 / real (Suc (Suc n))"
        by (simp add: field_simps)
      then have "1 / real (Suc n) * (1 / real (Suc n))
          \<le> 1 / real (Suc n) * (2 / real (Suc (Suc n)))"
        by (intro mult_left_mono) simp_all
      then show ?thesis by (simp add: power2_eq_square)
    qed
    ultimately show ?thesis by simp
  qed
  show ?thesis
    by (rule summable_comparison_test' [OF s, of 0]) (rule le)
qed

lemma euler_term_bounds:
  assumes x: "0 < x" and n: "x \<le> real (Suc k)"
  shows "\<bar>euler_term x k\<bar> \<le> (x + x\<^sup>2) * (1 / (real (Suc k))\<^sup>2)"
proof -
  define n where "n = real (Suc k)"
  have npos: "0 < n" "1 \<le> n" by (simp_all add: n_def)
  have u1: "ln (1 + 1 / n) \<le> 1 / n"
    using npos by (intro ln_add_one_self_le_self) simp
  have u2: "ln (1 + x / n) \<le> x / n"
    using npos x by (intro ln_add_one_self_le_self) simp
  have l1: "1 / n - (1 / n)\<^sup>2 \<le> ln (1 + 1 / n)"
    using npos by (intro ln_one_plus_pos_lower_bound) simp_all
  have l2: "x / n - (x / n)\<^sup>2 \<le> ln (1 + x / n)"
    using npos x n by (intro ln_one_plus_pos_lower_bound) (simp_all add: n_def)
  have up: "x * ln (1 + 1 / n) - ln (1 + x / n) \<le> x\<^sup>2 / n\<^sup>2"
  proof -
    have "x * ln (1 + 1 / n) \<le> x * (1 / n)"
      using u1 x by (intro mult_left_mono) simp_all
    with l2 show ?thesis by (simp add: power_divide)
  qed
  have lo: "- (x / n\<^sup>2) \<le> x * ln (1 + 1 / n) - ln (1 + x / n)"
  proof -
    have "x * (1 / n - (1 / n)\<^sup>2) \<le> x * ln (1 + 1 / n)"
      using l1 x by (intro mult_left_mono) simp_all
    with u2 show ?thesis by (simp add: power_divide algebra_simps)
  qed
  have "x\<^sup>2 / n\<^sup>2 \<le> (x + x\<^sup>2) / n\<^sup>2" "x / n\<^sup>2 \<le> (x + x\<^sup>2) / n\<^sup>2"
    using x npos by (simp_all add: divide_right_mono)
  with up lo show ?thesis
    unfolding euler_term_def n_def [symmetric] by (simp add: abs_le_iff)
qed

lemma summable_euler_term:
  assumes "0 < x"
  shows "summable (euler_term x)"
proof -
  have s: "summable (\<lambda>k. (x + x\<^sup>2) * (1 / (real (Suc k))\<^sup>2))"
    by (rule summable_mult [OF summable_inv_sq])
  show ?thesis
  proof (rule summable_comparison_test' [OF s, of "nat \<lceil>x\<rceil>"])
    fix k assume "nat \<lceil>x\<rceil> \<le> k"
    then have "x \<le> real (Suc k)" by linarith
    from euler_term_bounds [OF assms this]
    show "norm (euler_term x k) \<le> (x + x\<^sup>2) * (1 / (real (Suc k))\<^sup>2)" by simp
  qed
qed

lemma ln_ratio_tendsto_0:
  assumes "0 < x"
  shows "(\<lambda>k. ln (real (Suc k)) - ln (real (Suc k) + x)) \<longlonglongrightarrow> 0"
proof -
  have "(\<lambda>k. - ln (1 + x * inverse (real (Suc k)))) \<longlonglongrightarrow> - ln (1 + x * 0)"
    by (intro tendsto_minus tendsto_ln tendsto_add tendsto_mult tendsto_const
        LIMSEQ_inverse_real_of_nat) simp
  moreover have "- ln (1 + x * inverse (real (Suc k)))
      = ln (real (Suc k)) - ln (real (Suc k) + x)" for k
  proof -
    have "1 + x * inverse (real (Suc k)) = (real (Suc k) + x) / real (Suc k)"
      by (simp add: field_simps)
    then show ?thesis using assms by (simp add: ln_div)
  qed
  ultimately show ?thesis by simp
qed

lemma euler_term_diff:
  assumes "0 < x"
  shows "euler_term (x + 1) k - euler_term x k =
    (ln (real (Suc (Suc k))) - ln (real (Suc (Suc k)) + x))
      - (ln (real (Suc k)) - ln (real (Suc k) + x))"
proof -
  have a: "1 + 1 / real (Suc k) = real (Suc (Suc k)) / real (Suc k)"
    by (simp add: field_simps)
  have b: "1 + (x + 1) / real (Suc k) = (real (Suc (Suc k)) + x) / real (Suc k)"
    by (simp add: field_simps)
  have c: "1 + x / real (Suc k) = (real (Suc k) + x) / real (Suc k)"
    by (simp add: field_simps)
  have p: "real (Suc (Suc k)) + x \<noteq> 0" "real (Suc k) + x \<noteq> 0"
    "real (Suc k) \<noteq> 0" "real (Suc (Suc k)) \<noteq> 0"
    using assms by simp_all
  show ?thesis
    unfolding euler_term_def a b c using p
    by (simp only: ln_div if_True simp_thms) (simp add: algebra_simps)
qed

lemma ln_Gamma_plus1:
  assumes "0 < x"
  shows "ln_Gamma (x + 1) = ln x + ln_Gamma x"
proof -
  have s1: "summable (euler_term (x + 1))" and s0: "summable (euler_term x)"
    using assms by (simp_all add: summable_euler_term)
  have "(\<lambda>k. euler_term (x + 1) k - euler_term x k)
      sums (0 - (ln (real (Suc 0)) - ln (real (Suc 0) + x)))"
    unfolding euler_term_diff [OF assms]
    by (rule telescope_sums [OF ln_ratio_tendsto_0 [OF assms]])
  then have "(\<Sum>k. euler_term (x + 1) k - euler_term x k) = ln (1 + x)"
    by (simp add: sums_iff)
  with suminf_diff [OF s1 s0]
  have "(\<Sum>k. euler_term (x + 1) k) - (\<Sum>k. euler_term x k) = ln (1 + x)" by simp
  then show ?thesis
    unfolding ln_Gamma_def by (simp add: add.commute)
qed

lemma ln_Gamma_1: "ln_Gamma 1 = 0"
  by (simp add: ln_Gamma_def euler_term_def)

lemma ln_Gamma_2: "ln_Gamma 2 = 0"
  using ln_Gamma_plus1 [of 1] by (simp add: ln_Gamma_1)

lemma ln_Gamma_3: "ln_Gamma 3 = ln 2"
  using ln_Gamma_plus1 [of 2] by (simp add: ln_Gamma_2)

lemma ln_Gamma_4: "ln_Gamma 4 = ln 6"
  using ln_Gamma_plus1 [of 3] ln_mult_pos [of 3 2] by (simp add: ln_Gamma_3)

lemma ln_Gamma_5: "ln_Gamma 5 = ln 24"
  using ln_Gamma_plus1 [of 4] ln_mult_pos [of 4 6] by (simp add: ln_Gamma_4)

section \<open>The mixture-weight derivation\<close>

lemma bind_err_simps [simp]:
  "bind_err (Inl e) f = Inl e" "bind_err (Inr x) f = f x"
  by (simp_all add: bind_err_def)

lemma log_gamma_pole: "log_gamma x = (if pole x then Inl ValueError else Inr (ln_Gamma x))"
  by (simp add: log_gamma_def pole_def)

lemma log_numerator_loop_char:
  "log_numerator_loop i acc ps =
     (if \<exists>p \<in> set ps. fst p \<noteq> i \<and> pole (snd p) then Inl ValueError
      else Inr (acc + (\<Sum>p \<leftarrow> ps. if fst p \<noteq> i then ln_Gamma (snd p) else 0)))"
proof (induction ps arbitrary: acc)
  case Nil
  show ?case by simp
next
  case (Cons p ps)
  obtain j y where p: "p = (j, y)" by (cases p)
  show ?case
  proof (cases "j = i")
    case True
    then show ?thesis unfolding p by (simp add: Cons.IH)
  next
    case False
    then have ij: "i \<noteq> j" by simp
    show ?thesis
    proof (cases "pole y")
      case True
      with ij show ?thesis unfolding p by (simp add: log_gamma_pole)
    next
      case False
      with ij show ?thesis unfolding p by (simp add: log_gamma_pole Cons.IH add.assoc)
    qed
  qed
qed

lemma log_mix_weights_loop_char:
  "log_mix_weights_loop delta ld acc ps =
     (if \<exists>q \<in> set ps. raises_at delta q then Inl ValueError
      else Inr (acc @ map (\<lambda>q. ln_Gamma (snd q + 1) + numerator_rest delta (fst q) - ld) ps))"
proof (induction ps arbitrary: acc)
  case Nil
  show ?case by simp
next
  case (Cons q ps)
  obtain i x where q: "q = (i, x)" by (cases q)
  show ?case
  proof (cases "raises_at delta (i, x)")
    case True
    then show ?thesis
      unfolding q by (auto simp: raises_at_def log_gamma_pole log_numerator_loop_char)
  next
    case False
    then have "\<not> pole (x + 1)" "\<not> (\<exists>p \<in> set (enumerate 0 delta). fst p \<noteq> i \<and> pole (snd p))"
      by (simp_all add: raises_at_def)
    with False show ?thesis
      unfolding q
      by (auto simp: Cons.IH log_gamma_pole log_numerator_loop_char numerator_rest_def)
  qed
qed

lemma numerator_rest_eq:
  assumes "i < length delta"
  shows "numerator_rest delta i = (\<Sum>j \<in> {..<length delta} - {i}. ln_Gamma (delta ! j))"
proof -
  have "numerator_rest delta i
      = (\<Sum>j = 0..<length delta.
           if fst (enumerate 0 delta ! j) \<noteq> i then ln_Gamma (snd (enumerate 0 delta ! j)) else 0)"
    by (simp add: numerator_rest_def sum_list_sum_nth)
  also have "\<dots> = (\<Sum>j = 0..<length delta. if j \<noteq> i then ln_Gamma (delta ! j) else 0)"
    by (rule sum.cong) (simp_all add: nth_enumerate_eq)
  also have "\<dots> = (\<Sum>j \<in> {..<length delta} - {i}. ln_Gamma (delta ! j))"
    by (rule sum.mono_neutral_cong_right) (auto simp: assms)
  finally show ?thesis .
qed

lemma map_enumerate_weights:
  "map (\<lambda>q. ln_Gamma (snd q + 1) + numerator_rest delta (fst q) - ln_Gamma (sum_list delta + 1))
       (enumerate 0 delta)
   = map (weight_formula delta) [0..<length delta]"
  by (rule nth_equalityI) (simp_all add: nth_enumerate_eq numerator_rest_eq weight_formula_def)

lemma in_enumerate_iff:
  "p \<in> set (enumerate 0 delta) \<longleftrightarrow> fst p < length delta \<and> snd p = delta ! fst p"
  by (cases p) (auto simp: in_set_enumerate_eq)

lemma poles_enumerate:
  "(\<exists>q \<in> set (enumerate 0 delta). raises_at delta q)
    \<longleftrightarrow> (\<exists>i < length delta. pole (delta ! i + 1)
           \<or> (\<exists>j < length delta. j \<noteq> i \<and> pole (delta ! j)))"
  (is "?L \<longleftrightarrow> ?R")
proof
  assume ?L
  then obtain q where q: "fst q < length delta" "snd q = delta ! fst q"
    and d: "pole (snd q + 1) \<or> (\<exists>p. (fst p < length delta \<and> snd p = delta ! fst p) \<and> fst p \<noteq> fst q \<and> pole (snd p))"
    unfolding raises_at_def Bex_def in_enumerate_iff by blast
  from d show ?R
  proof
    assume "pole (snd q + 1)"
    with q have "fst q < length delta \<and> pole (delta ! fst q + 1)" by simp
    then show ?R by blast
  next
    assume "\<exists>p. (fst p < length delta \<and> snd p = delta ! fst p) \<and> fst p \<noteq> fst q \<and> pole (snd p)"
    then obtain p where p: "fst p < length delta" "snd p = delta ! fst p" "fst p \<noteq> fst q" "pole (snd p)"
      by blast
    then have "fst p < length delta \<and> fst p \<noteq> fst q \<and> pole (delta ! fst p)" by simp
    with q(1) show ?R by blast
  qed
next
  assume ?R
  then obtain i where i: "i < length delta"
    and d: "pole (delta ! i + 1) \<or> (\<exists>j < length delta. j \<noteq> i \<and> pole (delta ! j))"
    by blast
  have mem: "(k, delta ! k) \<in> set (enumerate 0 delta)" if "k < length delta" for k
    using that by (simp add: in_enumerate_iff)
  have "raises_at delta (i, delta ! i)"
  proof -
    from d show ?thesis
    proof
      assume "pole (delta ! i + 1)"
      then show ?thesis by (simp add: raises_at_def)
    next
      assume "\<exists>j < length delta. j \<noteq> i \<and> pole (delta ! j)"
      then obtain j where j: "j < length delta" "j \<noteq> i" "pole (delta ! j)" by blast
      have "fst (j, delta ! j) \<noteq> fst (i, delta ! i) \<and> pole (snd (j, delta ! j))"
        using j by simp
      with mem [OF j(1)] show ?thesis unfolding raises_at_def by blast
    qed
  qed
  with mem [OF i] show ?L by blast
qed

lemma get_log_mix_weights_char:
  "get_log_mix_weights delta =
     (if pole (sum_list delta + 1)
         \<or> (\<exists>i < length delta. pole (delta ! i + 1)
               \<or> (\<exists>j < length delta. j \<noteq> i \<and> pole (delta ! j)))
      then Inl ValueError
      else Inr (map (weight_formula delta) [0..<length delta]))"
  unfolding get_log_mix_weights_def log_gamma_pole
  by (simp add: log_mix_weights_loop_char poles_enumerate map_enumerate_weights)

lemma get_log_mix_weights_nonneg:
  assumes "\<forall>x \<in> set delta. 0 \<le> x"
  shows "get_log_mix_weights delta =
     (if 2 \<le> length delta \<and> 0 \<in> set delta then Inl ValueError
      else Inr (map (weight_formula delta) [0..<length delta]))"
proof -
  have nn: "0 \<le> delta ! i" if "i < length delta" for i
    using assms that by simp
  have s: "\<not> pole (sum_list delta + 1)"
    using sum_list_nonneg [of delta] assms by (simp add: pole_def)
  have p1: "\<not> pole (delta ! i + 1)" if "i < length delta" for i
    using nn [OF that] by (simp add: pole_def)
  have pz: "pole (delta ! j) \<longleftrightarrow> delta ! j = 0" if "j < length delta" for j
    using nn [OF that] by (auto simp: pole_def)
  have "(\<exists>i < length delta. pole (delta ! i + 1)
               \<or> (\<exists>j < length delta. j \<noteq> i \<and> pole (delta ! j)))
     \<longleftrightarrow> (2 \<le> length delta \<and> 0 \<in> set delta)" (is "?L \<longleftrightarrow> ?R")
  proof
    assume ?L
    then obtain i j where ij: "i < length delta" "j < length delta" "j \<noteq> i" "pole (delta ! j)"
      using p1 by blast
    then have "delta ! j = 0" using pz by simp
    then have "0 \<in> set delta" using ij(2) by (metis nth_mem)
    moreover have "2 \<le> length delta" using ij by linarith
    ultimately show ?R by simp
  next
    assume r: ?R
    then obtain j where j: "j < length delta" "delta ! j = 0"
      by (auto simp: in_set_conv_nth)
    define i where "i = (if j = 0 then 1 else 0::nat)"
    have "i < length delta" "j \<noteq> i" using r by (auto simp: i_def)
    with j pz show ?L by blast
  qed
  with s show ?thesis
    by (simp add: get_log_mix_weights_char)
qed

lemma Likelihood_init_Inr:
  "Likelihood_init U data_point = Inr self \<longleftrightarrow>
     (\<exists>pr pv nc. get_log_mix_weights (dp_delta_r data_point) = Inr pr
        \<and> get_log_mix_weights (dp_delta_v data_point) = Inr pv
        \<and> log_binomial_coefficient U (dp_d data_point) (dp_a data_point) = Inr nc
        \<and> self = \<lparr>lk_a = dp_a data_point, lk_d = dp_d data_point,
            log_pi_r = pr, log_pi_v = pv,
            log_binomial_norm_const = nc, ll_cache = []\<rparr>)"
  unfolding Likelihood_init_def
  by (auto simp: bind_err_def split: sum.splits)

lemma get_log_mix_weights_singleton: "0 \<le> x \<Longrightarrow> get_log_mix_weights [x] = Inr [0]"
  by (simp add: get_log_mix_weights_nonneg weight_formula_def)

lemma example_Likelihood_init:
  "Likelihood_init example_utils example_data_point =
     Inr \<lparr>lk_a = 5, lk_d = 10, log_pi_r = [0], log_pi_v = [0],
          log_binomial_norm_const = 0, ll_cache = []\<rparr>"
  by (simp add: Likelihood_init_def example_utils_def example_data_point_def
      get_log_mix_weights_singleton)

text \<open>
  Claim C4, amended. For every sequence \<open>delta\<close> of non-negative pseudo-counts,
  \<^verbatim>\<open>_get_log_mix_weights\<close> returns one log-weight per component,
  \<open>weight\<^sub>i = log_gamma (delta\<^sub>i + 1) + (\<Sum>\<^sub>j\<^sub>\<noteq>\<^sub>i log_gamma delta\<^sub>j) - log_gamma ((\<Sum>\<^sub>j delta\<^sub>j) + 1)\<close>,
  unless the sequence has at least two entries and one of them is 0: then
  \<open>log_gamma 0\<close> is evaluated and the derivation raises ValueError. The constructor of
  \<^verbatim>\<open>Likelihood\<close> applies this derivation to \<open>delta_r\<close> and to \<open>delta_v\<close>, each on its own.
\<close>

theorem get_log_mix_weights_formula:
  assumes "\<forall>x \<in> set delta. 0 \<le> x" and "Likelihood_init U data_point = Inr self"
  shows "get_log_mix_weights delta =
           (if 2 \<le> length delta \<and> 0 \<in> set delta then Inl ValueError
            else Inr (map (weight_formula delta) [0..<length delta]))
       \<and> get_log_mix_weights (dp_delta_r data_point) = Inr (log_pi_r self)
       \<and> get_log_mix_weights (dp_delta_v data_point) = Inr (log_pi_v self)"
  using assms(2) get_log_mix_weights_nonneg [OF assms(1)]
  by (auto simp: Likelihood_init_Inr)

text \<open>
  The theorem of C4 at the pseudo-counts \<open>[1, 1]\<close> and at the example instance.
\<close>

theorem get_log_mix_weights_formula_witness:
  "get_log_mix_weights [1, 1] = Inr [weight_formula [1, 1] 0, weight_formula [1, 1] 1]
     \<and> get_log_mix_weights (dp_delta_r example_data_point) = Inr [0]
     \<and> get_log_mix_weights (dp_delta_v example_data_point) = Inr [0]"
  using get_log_mix_weights_formula [of "[1, 1]" example_utils example_data_point,
      OF _ example_Likelihood_init]
  by simp

text \<open>
  Claim C4 as stated fails: \<open>[0, 1]\<close> has length 2 and non-negative entries, and
  the derivation returns no weights.
\<close>

theorem get_log_mix_weights_zero_entry: "get_log_mix_weights [0, 1] = Inl ValueError"
  by (simp add: get_log_mix_weights_def log_gamma_def)





lemma sum_except:
  fixes f :: "nat \<Rightarrow> real"
  assumes "i < n"
  shows "(\<Sum>j \<in> {..<n} - {i}. f j) = (\<Sum>j<n. f j) - f i"
  using assms by (simp add: sum_diff1)

lemma sum_list_pos:
  fixes xs :: "real list"
  assumes "xs \<noteq> []" and "\<forall>x \<in> set xs. 0 < x"
  shows "0 < sum_list xs"
  using assms by (induction xs) (auto intro: add_pos_nonneg sum_list_nonneg less_imp_le)

lemma exp_weight_formula:
  assumes pos: "\<forall>x \<in> set delta. 0 < x" and i: "i < length delta"
  shows "exp (weight_formula delta i)
       = delta ! i * (exp ((\<Sum>x \<leftarrow> delta. ln_Gamma x) - ln_Gamma (sum_list delta)) / sum_list delta)"
proof -
  have ne: "delta \<noteq> []" using i by auto
  have S: "0 < sum_list delta" by (rule sum_list_pos [OF ne pos])
  have di: "0 < delta ! i" using pos i by simp
  have T: "(\<Sum>j<length delta. ln_Gamma (delta ! j)) = (\<Sum>x \<leftarrow> delta. ln_Gamma x)"
    by (simp add: sum_list_sum_nth atLeast0LessThan)
  have "weight_formula delta i
      = ln (delta ! i) + ((\<Sum>x \<leftarrow> delta. ln_Gamma x) - ln_Gamma (sum_list delta)) - ln (sum_list delta)"
    unfolding weight_formula_def sum_except [OF i] T
      ln_Gamma_plus1 [OF di] ln_Gamma_plus1 [OF S]
    by simp
  then show ?thesis
    using di S by (simp add: exp_add exp_diff)
qed

lemma sum_exp_weights:
  assumes ne: "delta \<noteq> []" and pos: "\<forall>x \<in> set delta. 0 < x"
  shows "(\<Sum>w \<leftarrow> map (weight_formula delta) [0..<length delta]. exp w)
       = exp ((\<Sum>x \<leftarrow> delta. ln_Gamma x) - ln_Gamma (sum_list delta))"
proof -
  define c where "c = exp ((\<Sum>x \<leftarrow> delta. ln_Gamma x) - ln_Gamma (sum_list delta)) / sum_list delta"
  have S: "0 < sum_list delta" by (rule sum_list_pos [OF ne pos])
  have eq: "map (\<lambda>i. exp (weight_formula delta i)) [0..<length delta]
      = map (\<lambda>i. delta ! i * c) [0..<length delta]"
    by (rule map_cong) (simp_all add: exp_weight_formula [OF pos] c_def)
  have "(\<Sum>w \<leftarrow> map (weight_formula delta) [0..<length delta]. exp w)
      = sum_list (map (\<lambda>i. exp (weight_formula delta i)) [0..<length delta])"
    by (simp add: comp_def)
  also have "\<dots> = (\<Sum>i \<leftarrow> [0..<length delta]. delta ! i * c)"
    by (simp only: eq)
  also have "\<dots> = (\<Sum>x \<leftarrow> map (nth delta) [0..<length delta]. x) * c"
    by (simp add: sum_list_mult_const comp_def)
  also have "\<dots> = sum_list delta * c"
    by (simp add: map_nth)
  also have "\<dots> = exp ((\<Sum>x \<leftarrow> delta. ln_Gamma x) - ln_Gamma (sum_list delta))"
    using S by (simp add: c_def)
  finally show ?thesis .
qed

text \<open>
  Claim C5, amended. For every sequence \<open>delta\<close> of \<open>k \<ge> 1\<close> positive pseudo-counts
  the derivation returns log-weights whose exponentials sum to
  \<open>exp ((\<Sum>\<^sub>j log_gamma delta\<^sub>j) - log_gamma (\<Sum>\<^sub>j delta\<^sub>j))\<close>, that is
  \<open>(\<Prod>\<^sub>j \<Gamma>(delta\<^sub>j)) / \<Gamma>(\<Sum>\<^sub>j delta\<^sub>j)\<close>. This is 1 when \<open>k = 1\<close> (also for the
  single pseudo-count 0), and not in general.
  The same holds for \<open>log_pi_r\<close> and \<open>log_pi_v\<close> of an instance, which are these
  weights for \<open>delta_r\<close> and \<open>delta_v\<close>.
\<close>

theorem sum_exp_log_mix_weights:
  assumes "delta \<noteq> []" and "\<forall>x \<in> set delta. 0 < x"
  shows "(\<exists>ws. get_log_mix_weights delta = Inr ws
           \<and> (\<Sum>w \<leftarrow> ws. exp w) = exp ((\<Sum>x \<leftarrow> delta. ln_Gamma x) - ln_Gamma (sum_list delta))
           \<and> (length delta = 1 \<longrightarrow> (\<Sum>w \<leftarrow> ws. exp w) = 1)
           \<and> (\<forall>U data_point self. Likelihood_init U data_point = Inr self \<longrightarrow>
                (dp_delta_r data_point = delta \<longrightarrow> log_pi_r self = ws)
              \<and> (dp_delta_v data_point = delta \<longrightarrow> log_pi_v self = ws)))
       \<and> (\<forall>x. 0 \<le> x \<longrightarrow> get_log_mix_weights [x] = Inr [0])"
proof -
  have nn: "\<forall>x \<in> set delta. 0 \<le> x" and nz: "0 \<notin> set delta"
    using assms(2) by (auto intro: less_imp_le)
  define ws where "ws = map (weight_formula delta) [0..<length delta]"
  have g: "get_log_mix_weights delta = Inr ws"
    using nz by (simp add: get_log_mix_weights_nonneg [OF nn] ws_def)
  have s: "(\<Sum>w \<leftarrow> ws. exp w) = exp ((\<Sum>x \<leftarrow> delta. ln_Gamma x) - ln_Gamma (sum_list delta))"
    unfolding ws_def by (rule sum_exp_weights [OF assms])
  have one: "(\<Sum>w \<leftarrow> ws. exp w) = 1" if "length delta = 1"
  proof -
    from that obtain x where "delta = [x]" by (cases delta) auto
    then show ?thesis unfolding s by simp
  qed
  have inst: "(dp_delta_r data_point = delta \<longrightarrow> log_pi_r self = ws)
              \<and> (dp_delta_v data_point = delta \<longrightarrow> log_pi_v self = ws)"
    if "Likelihood_init U data_point = Inr self" for U data_point self
    using that g by (auto simp: Likelihood_init_Inr)
  from g s one inst
  have "\<exists>ws. get_log_mix_weights delta = Inr ws
           \<and> (\<Sum>w \<leftarrow> ws. exp w) = exp ((\<Sum>x \<leftarrow> delta. ln_Gamma x) - ln_Gamma (sum_list delta))
           \<and> (length delta = 1 \<longrightarrow> (\<Sum>w \<leftarrow> ws. exp w) = 1)
           \<and> (\<forall>U data_point self. Likelihood_init U data_point = Inr self \<longrightarrow>
                (dp_delta_r data_point = delta \<longrightarrow> log_pi_r self = ws)
              \<and> (dp_delta_v data_point = delta \<longrightarrow> log_pi_v self = ws))"
    by blast
  then show ?thesis
    by (simp add: get_log_mix_weights_singleton)
qed

text \<open>
  The theorem of C5 at \<open>[2, 2]\<close>.
\<close>

theorem sum_exp_log_mix_weights_witness:
  "\<exists>ws. get_log_mix_weights [2, 2] = Inr ws
      \<and> (\<Sum>w \<leftarrow> ws. exp w) = exp ((\<Sum>x \<leftarrow> [2, 2]. ln_Gamma x) - ln_Gamma (sum_list [2, 2]))"
  using sum_exp_log_mix_weights [of "[2, 2]", THEN conjunct1] by auto

text \<open>
  Claim C5 as stated fails: for \<open>[2, 2]\<close> both log-weights are \<open>- ln 12\<close> and
  their exponentials sum to \<open>1/6\<close>, not to 1.
\<close>

theorem sum_exp_log_mix_weights_not_one:
  "get_log_mix_weights [2, 2] = Inr [- ln 12, - ln 12]
     \<and> (\<Sum>w \<leftarrow> [- ln 12, - ln 12 :: real]. exp w) = 1 / 6"
proof -
  have l: "ln (24::real) = ln 2 + ln 12"
    using ln_mult_pos [of 2 "12::real"] by simp
  have w: "weight_formula [2, 2] i = - ln 12" if "i = 0 \<or> i = Suc 0" for i
  proof -
    have i: "i < length [2, 2 :: real]" using that by auto
    show ?thesis
      unfolding weight_formula_def sum_except [OF i] using that
      by (auto simp: lessThan_Suc ln_Gamma_2 ln_Gamma_3 ln_Gamma_5 l)
  qed
  have "get_log_mix_weights [2, 2] = Inr [- ln 12, - ln 12]"
    by (simp add: get_log_mix_weights_nonneg upt_rec w)
  moreover have "(\<Sum>w \<leftarrow> [- ln 12, - ln 12 :: real]. exp w) = 1 / 6"
    by (simp add: exp_minus)
  ultimately show ?thesis by simp
qed

section \<open>The memo cache\<close>

lemma update_new_key: "map_of c k = None \<Longrightarrow> AList.update k v c = c @ [(k, v)]"
  by (induction c) (auto split: if_splits)

lemma cache_getitem_new:
  "map_of c k = None \<Longrightarrow> cache_getitem (c @ [(k, v)]) k = Inr v"
  by (simp add: cache_getitem_def map_add_def)

lemma cache_getitem_Some: "map_of c k = Some v \<Longrightarrow> cache_getitem c k = Inr v"
  by (simp add: cache_getitem_def)

lemma map_of_tl_None: "map_of c k = None \<Longrightarrow> map_of (tl c) k = None"
  by (cases c) (auto split: if_splits)

lemma popitem_first_append:
  "c \<noteq> [] \<Longrightarrow> popitem_first (c @ [p]) = Inr (tl c @ [p])"
  by (cases c) (simp_all add: popitem_first_def)

lemma compute_hit:
  assumes "map_of (ll_cache self) phi = Some v"
  shows "compute_log_likelihood f self phi = Inr (v, self)"
  using assms by (simp add: compute_log_likelihood_def cache_getitem_Some)

lemma compute_miss_fail:
  assumes "map_of (ll_cache self) phi = None" and "f self phi = Inl e"
  shows "compute_log_likelihood f self phi = Inl e"
  using assms by (simp add: compute_log_likelihood_def)

lemma compute_miss_room:
  assumes "map_of (ll_cache self) phi = None" and "f self phi = Inr v"
    and "length (ll_cache self) < 1000"
  shows "compute_log_likelihood f self phi
       = Inr (v, self\<lparr>ll_cache := ll_cache self @ [(phi, v)]\<rparr>)"
  unfolding compute_log_likelihood_def update_new_key [OF assms(1)]
  using assms by (simp add: cache_getitem_new)

lemma compute_miss_full:
  assumes "map_of (ll_cache self) phi = None" and "f self phi = Inr v"
    and "1000 \<le> length (ll_cache self)"
  shows "compute_log_likelihood f self phi
       = Inr (v, self\<lparr>ll_cache := tl (ll_cache self) @ [(phi, v)]\<rparr>)"
proof -
  have ne: "ll_cache self \<noteq> []" using assms(3) by auto
  show ?thesis
    unfolding compute_log_likelihood_def update_new_key [OF assms(1)]
    using assms ne
    by (simp add: popitem_first_append cache_getitem_new map_of_tl_None)
qed

lemma compute_cases:
  obtains (hit) v where "map_of (ll_cache self) phi = Some v"
      "compute_log_likelihood f self phi = Inr (v, self)"
  | (fail) e where "map_of (ll_cache self) phi = None" "f self phi = Inl e"
      "compute_log_likelihood f self phi = Inl e"
  | (room) v where "map_of (ll_cache self) phi = None" "f self phi = Inr v"
      "length (ll_cache self) < 1000"
      "compute_log_likelihood f self phi = Inr (v, self\<lparr>ll_cache := ll_cache self @ [(phi, v)]\<rparr>)"
  | (full) v where "map_of (ll_cache self) phi = None" "f self phi = Inr v"
      "1000 \<le> length (ll_cache self)"
      "compute_log_likelihood f self phi = Inr (v, self\<lparr>ll_cache := tl (ll_cache self) @ [(phi, v)]\<rparr>)"
proof (cases "map_of (ll_cache self) phi")
  case (Some v)
  then show ?thesis using compute_hit hit by blast
next
  case None
  show ?thesis
  proof (cases "f self phi")
    case (Inl e)
    then show ?thesis using None compute_miss_fail fail by blast
  next
    case (Inr v)
    show ?thesis
    proof (cases "length (ll_cache self) < 1000")
      case True
      then show ?thesis using None Inr compute_miss_room room by blast
    next
      case False
      then have "1000 \<le> length (ll_cache self)" by simp
      then show ?thesis using None Inr compute_miss_full full by blast
    qed
  qed
qed

lemma compute_length:
  assumes "length (ll_cache self) \<le> 1000" and "compute_log_likelihood f self phi = Inr (v, self1)"
  shows "length (ll_cache self1) \<le> 1000"
  using assms by (cases rule: compute_cases [of self phi f]) auto


lemma compute_all_distinct:
  assumes "\<forall>c. \<forall>phi \<in> set phis. f (self\<lparr>ll_cache := c\<rparr>) phi = Inr (g phi)"
    and "distinct (map fst (ll_cache self) @ phis)"
    and "length (ll_cache self) \<le> 1000"
  shows "compute_all f self ll phis =
     Inr (ll @ map g phis,
          self\<lparr>ll_cache := drop (length (ll_cache self) + length phis - 1000)
                             (ll_cache self @ map (\<lambda>p. (p, g p)) phis)\<rparr>)"
  using assms
proof (induction phis arbitrary: self ll)
  case Nil
  then show ?case by simp
next
  case (Cons phi rest)
  let ?c = "ll_cache self"
  have miss: "map_of ?c phi = None"
    using Cons.prems(2) by (simp add: map_of_eq_None_iff)
  have val: "f self phi = Inr (g phi)"
    using Cons.prems(1) [THEN spec, of ?c] by simp
  have rest_ok: "\<forall>c. \<forall>phi \<in> set rest. f (self\<lparr>ll_cache := c'\<rparr>\<lparr>ll_cache := c\<rparr>) phi = Inr (g phi)"
    for c'
    using Cons.prems(1) by simp
  show ?case
  proof (cases "length ?c < 1000")
    case True
    let ?s1 = "self\<lparr>ll_cache := ?c @ [(phi, g phi)]\<rparr>"
    have step: "compute_log_likelihood f self phi = Inr (g phi, ?s1)"
      using miss val True by (rule compute_miss_room)
    have d1: "distinct (map fst (ll_cache ?s1) @ rest)"
      using Cons.prems(2) by auto
    have l1: "length (ll_cache ?s1) \<le> 1000"
      using True by simp
    show ?thesis
      by (simp add: step Cons.IH [OF rest_ok d1 l1])
  next
    case False
    with Cons.prems(3) have len: "length ?c = 1000" by simp
    then obtain e c' where c: "?c = e # c'" by (cases ?c) auto
    let ?s1 = "self\<lparr>ll_cache := tl ?c @ [(phi, g phi)]\<rparr>"
    have step: "compute_log_likelihood f self phi = Inr (g phi, ?s1)"
      using miss val by (rule compute_miss_full) (simp add: len)
    have d1: "distinct (map fst (ll_cache ?s1) @ rest)"
      using Cons.prems(2) by (auto simp: c)
    have l1: "length (ll_cache ?s1) \<le> 1000"
      using len by simp
    have l1': "length c' = 999" using len c by simp
    have ih: "compute_all f ?s1 (ll @ [g phi]) rest =
        Inr ((ll @ [g phi]) @ map g rest,
          ?s1\<lparr>ll_cache := drop (length (ll_cache ?s1) + length rest - 1000)
                             (ll_cache ?s1 @ map (\<lambda>p. (p, g p)) rest)\<rparr>)"
      by (rule Cons.IH [OF rest_ok d1 l1])
    have "compute_all f self ll (phi # rest) = compute_all f ?s1 (ll @ [g phi]) rest"
      by (simp add: step)
    also note ih
    finally show ?thesis
      using len by (simp add: c l1')
  qed
qed

lemma compute_all_fresh:
  assumes "\<forall>c. \<forall>phi \<in> set phis. f (self\<lparr>ll_cache := c\<rparr>) phi = Inr (g phi)"
    and "distinct phis" and "ll_cache self = []"
  shows "compute_all f self [] phis =
     Inr (map g phis,
          self\<lparr>ll_cache := drop (length phis - 1000) (map (\<lambda>p. (p, g p)) phis)\<rparr>)"
  using compute_all_distinct [OF assms(1), of "[]"] assms(2,3) by simp

lemma kernel_ignores_cache:
  "Likelihood_log_binomial_likelihood U (self\<lparr>ll_cache := c\<rparr>) phi m_r m_v
     = Likelihood_log_binomial_likelihood U self phi m_r m_v"
  by (simp add: Likelihood_log_binomial_likelihood_def)

lemma Binomial_inner_loop_ignores_cache:
  "Binomial_inner_loop U (self\<lparr>ll_cache := c\<rparr>) phi m_r lp_r ll ps
     = Binomial_inner_loop U self phi m_r lp_r ll ps"
  by (induction ps arbitrary: ll) (auto simp: kernel_ignores_cache)

lemma Binomial_outer_loop_ignores_cache:
  "Binomial_outer_loop U (self\<lparr>ll_cache := c\<rparr>) phi ll ps
     = Binomial_outer_loop U self phi ll ps"
  by (induction ps arbitrary: ll) (auto simp: Binomial_inner_loop_ignores_cache)

lemma Binomial_ignores_cache: "ignores_cache (BinomialLikelihood_log_likelihood U)"
  by (simp add: ignores_cache_def BinomialLikelihood_log_likelihood_def fun_eq_iff
      Binomial_outer_loop_ignores_cache)

lemma mesh_loop_ignores_cache:
  "mesh_loop U (self\<lparr>ll_cache := c\<rparr>) phi m_r a_v b_v ls ms
     = mesh_loop U self phi m_r a_v b_v ls ms"
  by (induction ms arbitrary: ls) (auto simp: kernel_ignores_cache)

lemma BetaBinomial_inner_loop_ignores_cache:
  "BetaBinomial_inner_loop U (self\<lparr>ll_cache := c\<rparr>) phi m_r lp_r ll ps
     = BetaBinomial_inner_loop U self phi m_r lp_r ll ps"
  by (induction ps arbitrary: ll)
     (auto simp: log_beta_binomial_likelihood_def mesh_loop_ignores_cache)

lemma BetaBinomial_outer_loop_ignores_cache:
  "BetaBinomial_outer_loop U (self\<lparr>ll_cache := c\<rparr>) phi ll ps
     = BetaBinomial_outer_loop U self phi ll ps"
  by (induction ps arbitrary: ll) (auto simp: BetaBinomial_inner_loop_ignores_cache)

lemma BetaBinomial_ignores_cache: "ignores_cache (BetaBinomialLikelihood_log_likelihood U)"
  by (simp add: ignores_cache_def BetaBinomialLikelihood_log_likelihood_def fun_eq_iff
      BetaBinomial_outer_loop_ignores_cache)

lemma compute_value:
  assumes "ignores_cache f" and "cache_consistent f self"
  shows "map_sum id fst (compute_log_likelihood f self phi) = f self phi"
proof (cases rule: compute_cases [of self phi f])
  case (hit v)
  then have "(phi, v) \<in> set (ll_cache self)" by (simp add: map_of_SomeD)
  with assms(2) have "f self phi = Inr v" by (auto simp: cache_consistent_def)
  with hit show ?thesis by simp
qed simp_all

lemma cache_consistent_update:
  assumes "ignores_cache f" and "\<forall>e \<in> set c. f self (fst e) = Inr (snd e)"
  shows "cache_consistent f (self\<lparr>ll_cache := c\<rparr>)"
  using assms by (simp add: cache_consistent_def ignores_cache_def)

lemma compute_consistent:
  assumes "ignores_cache f" and "cache_consistent f self"
    and "compute_log_likelihood f self phi = Inr (v, self1)"
  shows "cache_consistent f self1"
proof -
  have old: "\<forall>e \<in> set (ll_cache self). f self (fst e) = Inr (snd e)"
    using assms(2) by (simp add: cache_consistent_def)
  have tl: "\<forall>e \<in> set (tl (ll_cache self)). f self (fst e) = Inr (snd e)"
    using old by (cases "ll_cache self") auto
  show ?thesis
  proof (cases rule: compute_cases [of self phi f])
    case (hit w)
    with assms show ?thesis by simp
  next
    case (fail e)
    with assms show ?thesis by simp
  next
    case (room w)
    with assms(3) have eq: "w = v" "self1 = self\<lparr>ll_cache := ll_cache self @ [(phi, v)]\<rparr>"
      by auto
    show ?thesis
      unfolding eq(2) using old room(2) eq(1)
      by (intro cache_consistent_update [OF assms(1)]) simp
  next
    case (full w)
    with assms(3) have eq: "w = v" "self1 = self\<lparr>ll_cache := tl (ll_cache self) @ [(phi, v)]\<rparr>"
      by auto
    show ?thesis
      unfolding eq(2) using tl full(2) eq(1)
      by (intro cache_consistent_update [OF assms(1)]) simp
  qed
qed

lemma compute_again:
  assumes "compute_log_likelihood f self phi = Inr (v, self1)"
  shows "compute_log_likelihood g self1 phi = Inr (v, self1)"
proof (cases rule: compute_cases [of self phi f])
  case (hit w)
  with assms show ?thesis by (auto intro: compute_hit)
next
  case (fail e)
  with assms show ?thesis by simp
next
  case (room w)
  with assms have "map_of (ll_cache self1) phi = Some v"
    by (auto simp: map_add_def)
  then show ?thesis by (rule compute_hit)
next
  case (full w)
  have "map_of (tl (ll_cache self)) phi = None"
    by (rule map_of_tl_None [OF full(1)])
  with full assms have "map_of (ll_cache self1) phi = Some v"
    by (auto simp: map_add_def)
  then show ?thesis by (rule compute_hit)
qed

lemma distinct_tl_keys: "distinct (map fst c) \<Longrightarrow> distinct (map fst (tl c))"
  by (cases c) auto

lemma map_of_append_other: "k \<noteq> k' \<Longrightarrow> map_of (c @ [(k', v)]) k = map_of c k"
  by (simp add: map_add_def split: option.splits)

lemma map_of_Cons_other: "k \<noteq> fst e \<Longrightarrow> map_of (e # c) k = map_of c k"
  by simp

lemma map_of_append_new: "map_of c k = None \<Longrightarrow> map_of (c @ [(k, v)]) k = Some v"
  by (simp add: map_add_def)

lemma compute_entries:
  assumes "distinct (map fst (ll_cache self))"
    and "compute_log_likelihood f self phi = Inr (v, self1)"
  shows "distinct (map fst (ll_cache self1)) \<and> map_of (ll_cache self1) phi = Some v
     \<and> (\<forall>k. k \<noteq> phi \<and> map_of (ll_cache self1) k \<noteq> None
          \<longrightarrow> map_of (ll_cache self1) k = map_of (ll_cache self) k)"
proof (cases rule: compute_cases [of self phi f])
  case (hit w)
  with assms show ?thesis by auto
next
  case (fail e)
  with assms show ?thesis by simp
next
  case (room w)
  with assms(2) have eq: "w = v" "ll_cache self1 = ll_cache self @ [(phi, v)]"
    by auto
  have nk: "phi \<notin> fst ` set (ll_cache self)"
    using room(1) by (simp add: map_of_eq_None_iff)
  show ?thesis
    unfolding eq(2) using assms(1) nk room(1)
    by (simp del: map_of_append add: map_of_append_other map_of_append_new)
next
  case (full w)
  with assms(2) have eq: "w = v" "ll_cache self1 = tl (ll_cache self) @ [(phi, v)]"
    by auto
  obtain e c' where c: "ll_cache self = e # c'"
    using full(3) by (cases "ll_cache self") auto
  have n': "map_of c' phi = None"
    using map_of_tl_None [OF full(1)] by (simp add: c)
  then have nk: "phi \<notin> fst ` set c'"
    by (simp add: map_of_eq_None_iff)
  have d: "distinct (map fst c')" "fst e \<notin> fst ` set c'"
    using assms(1) by (simp_all add: c)
  have other: "map_of c' k = map_of (e # c') k" if "map_of c' k \<noteq> None" for k
  proof -
    from that have "k \<in> fst ` set c'" by (simp add: map_of_eq_None_iff)
    with d(2) have "k \<noteq> fst e" by blast
    then show ?thesis by simp
  qed
  have eq2: "ll_cache self1 = c' @ [(phi, v)]"
    using eq(2) by (simp add: c)
  have A: "distinct (map fst (c' @ [(phi, v)]))"
    using d(1) nk by simp
  have B: "map_of (c' @ [(phi, v)]) phi = Some v"
    by (rule map_of_append_new [OF n'])
  have C: "map_of (c' @ [(phi, v)]) k = map_of (e # c') k"
    if "k \<noteq> phi" "map_of (c' @ [(phi, v)]) k \<noteq> None" for k
  proof -
    have 1: "map_of (c' @ [(phi, v)]) k = map_of c' k"
      by (rule map_of_append_other [OF that(1)])
    from that(2) have "map_of c' k \<noteq> None" unfolding 1 .
    from other [OF this] show ?thesis unfolding 1 .
  qed
  show ?thesis
    unfolding eq2 c using A B C by blast
qed

text \<open>
  Claim C7. A call of \<^verbatim>\<open>compute_log_likelihood\<close> on an instance whose cache holds at
  most 1000 entries leaves at most 1000 entries. A call that stores a new key appends
  its entry, and when the cache held 1000 entries it drops exactly the entry at the
  front, the oldest one. After 1001 calls with distinct keys on a new instance the
  cache holds the last 1000 keys, and the first key is no longer in it.
\<close>

theorem cache_at_most_1000_oldest_first:
  assumes "length (ll_cache self) \<le> 1000"
  shows "(\<forall>v self1. compute_log_likelihood f self phi = Inr (v, self1)
            \<longrightarrow> length (ll_cache self1) \<le> 1000)
     \<and> (\<forall>v. map_of (ll_cache self) phi = None \<and> f self phi = Inr v \<longrightarrow>
            compute_log_likelihood f self phi =
              Inr (v, self\<lparr>ll_cache :=
                (if length (ll_cache self) = 1000 then tl (ll_cache self) else ll_cache self)
                  @ [(phi, v)]\<rparr>))
     \<and> (\<forall>phis g. ll_cache self = [] \<and> distinct phis \<and> length phis = 1001
              \<and> (\<forall>c. \<forall>p \<in> set phis. f (self\<lparr>ll_cache := c\<rparr>) p = Inr (g p)) \<longrightarrow>
            (\<exists>self1. compute_all f self [] phis = Inr (map g phis, self1)
               \<and> map fst (ll_cache self1) = tl phis
               \<and> length (ll_cache self1) = 1000
               \<and> map_of (ll_cache self1) (hd phis) = None))"
proof (intro conjI allI impI)
  fix v self1
  assume "compute_log_likelihood f self phi = Inr (v, self1)"
  with assms show "length (ll_cache self1) \<le> 1000" by (rule compute_length)
next
  fix v
  assume a: "map_of (ll_cache self) phi = None \<and> f self phi = Inr v"
  show "compute_log_likelihood f self phi =
      Inr (v, self\<lparr>ll_cache :=
        (if length (ll_cache self) = 1000 then tl (ll_cache self) else ll_cache self)
          @ [(phi, v)]\<rparr>)"
  proof (cases "length (ll_cache self) = 1000")
    case True
    then have "1000 \<le> length (ll_cache self)" by simp
    with a have "compute_log_likelihood f self phi
        = Inr (v, self\<lparr>ll_cache := tl (ll_cache self) @ [(phi, v)]\<rparr>)"
      by (intro compute_miss_full) simp_all
    with True show ?thesis by simp
  next
    case False
    with assms have "length (ll_cache self) < 1000" by simp
    with a have "compute_log_likelihood f self phi
        = Inr (v, self\<lparr>ll_cache := ll_cache self @ [(phi, v)]\<rparr>)"
      by (intro compute_miss_room) simp_all
    with False show ?thesis by simp
  qed
next
  fix phis :: "real list" and g
  assume a: "ll_cache self = [] \<and> distinct phis \<and> length phis = 1001
      \<and> (\<forall>c. \<forall>p \<in> set phis. f (self\<lparr>ll_cache := c\<rparr>) p = Inr (g p))"
  then obtain p rest where phis: "phis = p # rest" by (cases phis) auto
  let ?self1 = "self\<lparr>ll_cache := drop (length phis - 1000) (map (\<lambda>p. (p, g p)) phis)\<rparr>"
  have run: "compute_all f self [] phis = Inr (map g phis, ?self1)"
    using a by (intro compute_all_fresh) simp_all
  have c1: "ll_cache ?self1 = map (\<lambda>p. (p, g p)) rest"
    using a by (simp add: phis)
  have keys: "map fst (ll_cache ?self1) = tl phis"
    unfolding c1 by (simp add: phis comp_def)
  have "p \<notin> set rest" using a by (simp add: phis)
  then have gone: "map_of (ll_cache ?self1) (hd phis) = None"
    unfolding c1 by (simp add: phis map_of_eq_None_iff image_iff)
  have len: "length (ll_cache ?self1) = 1000"
    unfolding c1 using a by (simp add: phis)
  from run keys len gone
  show "\<exists>self1. compute_all f self [] phis = Inr (map g phis, self1)
               \<and> map fst (ll_cache self1) = tl phis
               \<and> length (ll_cache self1) = 1000
               \<and> map_of (ll_cache self1) (hd phis) = None"
    by blast
qed

text \<open>
  The theorem of C7 on the example instance, with the keys \<open>0, 1, \<dots>, 1000\<close>.
\<close>

theorem cache_at_most_1000_oldest_first_witness:
  "\<exists>self1. compute_all (\<lambda>s p. Inr 0) example_likelihood [] (map real [0..<1001])
        = Inr (map (\<lambda>p. 0) (map real [0..<1001]), self1)
     \<and> map fst (ll_cache self1) = tl (map real [0..<1001])
     \<and> length (ll_cache self1) = 1000
     \<and> map_of (ll_cache self1) (hd (map real [0..<1001])) = None"
proof -
  have l: "length (ll_cache example_likelihood) \<le> 1000"
    by (simp add: example_likelihood_def)
  have h: "ll_cache example_likelihood = [] \<and> distinct (map real [0..<1001])
      \<and> length (map real [0..<1001]) = 1001
      \<and> (\<forall>c. \<forall>p \<in> set (map real [0..<1001]).
            (\<lambda>s p. Inr 0) (example_likelihood\<lparr>ll_cache := c\<rparr>) p = Inr ((\<lambda>p. 0) p))"
    by (simp add: example_likelihood_def distinct_map)
  note run = cache_at_most_1000_oldest_first [OF l, of "\<lambda>s p. Inr 0" 0,
      THEN conjunct2, THEN conjunct2, rule_format, of "map real [0..<1001]" "\<lambda>p. 0"]
  from run [OF h] show ?thesis .
qed

text \<open>
  Claim C8. On an instance whose cache is consistent (as the empty cache of a new
  instance is, and as it stays after every call, the methods of both concrete classes
  never reading the cache), \<^verbatim>\<open>compute_log_likelihood(phi)\<close> returns the value, or raises
  the error, of \<^verbatim>\<open>_log_likelihood(phi)\<close>. A second call with the same \<open>phi\<close> returns
  the same value and leaves the instance as it is whatever the method would do: the
  method is not run again. Keys stay pairwise distinct, the entry of \<open>phi\<close> holds its
  value, and the entries of the other keys are left as they were.
\<close>

theorem memoised_equals_uncached:
  assumes "ignores_cache f" and "cache_consistent f self"
    and "distinct (map fst (ll_cache self))"
  shows "map_sum id fst (compute_log_likelihood f self phi) = f self phi
     \<and> (\<forall>v self1. compute_log_likelihood f self phi = Inr (v, self1) \<longrightarrow>
            (\<forall>g. compute_log_likelihood g self1 phi = Inr (v, self1))
          \<and> cache_consistent f self1
          \<and> distinct (map fst (ll_cache self1))
          \<and> map_of (ll_cache self1) phi = Some v
          \<and> (\<forall>k. k \<noteq> phi \<and> map_of (ll_cache self1) k \<noteq> None
                \<longrightarrow> map_of (ll_cache self1) k = map_of (ll_cache self) k))
     \<and> ignores_cache (BinomialLikelihood_log_likelihood U)
     \<and> ignores_cache (BetaBinomialLikelihood_log_likelihood U)
     \<and> (\<forall>g. ll_cache self = [] \<longrightarrow> cache_consistent g self)"
proof (intro conjI allI impI)
  show "map_sum id fst (compute_log_likelihood f self phi) = f self phi"
    by (rule compute_value [OF assms(1,2)])
  show "ignores_cache (BinomialLikelihood_log_likelihood U)"
    by (rule Binomial_ignores_cache)
  show "ignores_cache (BetaBinomialLikelihood_log_likelihood U)"
    by (rule BetaBinomial_ignores_cache)
  show "cache_consistent g self" if "ll_cache self = []" for g
    using that by (simp add: cache_consistent_def)
next
  fix v self1 g
  assume c: "compute_log_likelihood f self phi = Inr (v, self1)"
  show "compute_log_likelihood g self1 phi = Inr (v, self1)"
    by (rule compute_again [OF c])
  show "cache_consistent f self1"
    by (rule compute_consistent [OF assms(1,2) c])
  from compute_entries [OF assms(3) c]
  show "distinct (map fst (ll_cache self1))" "map_of (ll_cache self1) phi = Some v"
    by simp_all
next
  fix v self1 k
  assume c: "compute_log_likelihood f self phi = Inr (v, self1)"
    and k: "k \<noteq> phi \<and> map_of (ll_cache self1) k \<noteq> None"
  from compute_entries [OF assms(3) c] k
  show "map_of (ll_cache self1) k = map_of (ll_cache self) k" by blast
qed

lemma example_binomial_value:
  "BinomialLikelihood_log_likelihood example_utils example_binomial phi = Inr 0"
  by (simp add: BinomialLikelihood_log_likelihood_def example_binomial_def example_utils_def
      Likelihood_log_binomial_likelihood_def log_sum_exp_def)

text \<open>
  The theorem of C8 on the example instance of \<^verbatim>\<open>BinomialLikelihood\<close> at \<open>phi = 1/2\<close>;
  the second call is given a method that always fails.
\<close>

theorem memoised_equals_uncached_witness:
  "compute_log_likelihood (BinomialLikelihood_log_likelihood example_utils) example_binomial (1/2)
     = Inr (0, example_binomial\<lparr>ll_cache := [(1/2, 0)]\<rparr>)
   \<and> compute_log_likelihood (\<lambda>s p. Inl KeyError) (example_binomial\<lparr>ll_cache := [(1/2, 0)]\<rparr>) (1/2)
     = Inr (0, example_binomial\<lparr>ll_cache := [(1/2, 0)]\<rparr>)"
proof -
  have c: "cache_consistent (BinomialLikelihood_log_likelihood example_utils) example_binomial"
    and d: "distinct (map fst (ll_cache example_binomial))"
    and e: "ll_cache example_binomial = []"
    by (simp_all add: cache_consistent_def example_binomial_def)
  have 1: "compute_log_likelihood (BinomialLikelihood_log_likelihood example_utils)
      example_binomial (1/2) = Inr (0, example_binomial\<lparr>ll_cache := [(1/2, 0)]\<rparr>)"
    using compute_miss_room [of example_binomial "1/2"
        "BinomialLikelihood_log_likelihood example_utils" 0]
    by (simp add: e example_binomial_value)
  from memoised_equals_uncached [OF Binomial_ignores_cache c d, of "1/2", THEN conjunct2,
      THEN conjunct1] 1
  show ?thesis by blast
qed

text \<open>
  Claim C9. The method \<^verbatim>\<open>_log_likelihood\<close> of the abstract base raises (TypeError, from
  \<^verbatim>\<open>raise NotImplemented\<close>) for every instance and every \<open>phi\<close> and returns no value;
  \<^verbatim>\<open>compute_log_likelihood\<close> on an instance of the base passes the failure on.
\<close>

theorem abstract_log_likelihood_raises:
  "Likelihood_log_likelihood self phi = Inl TypeError
     \<and> (\<forall>v. Likelihood_log_likelihood self phi \<noteq> Inr v)
     \<and> (\<forall>c. cache_consistent Likelihood_log_likelihood (self\<lparr>ll_cache := c\<rparr>) \<longrightarrow>
          compute_log_likelihood Likelihood_log_likelihood (self\<lparr>ll_cache := c\<rparr>) phi
            = Inl TypeError)"
proof (intro conjI allI impI)
  show "Likelihood_log_likelihood self phi = Inl TypeError"
    by (simp add: Likelihood_log_likelihood_def)
  show "Likelihood_log_likelihood self phi \<noteq> Inr v" for v
    by (simp add: Likelihood_log_likelihood_def)
next
  fix c
  assume cc: "cache_consistent Likelihood_log_likelihood (self\<lparr>ll_cache := c\<rparr>)"
  have "c = []"
  proof (cases c)
    case Nil
    then show ?thesis .
  next
    case (Cons e es)
    with cc have "Likelihood_log_likelihood (self\<lparr>ll_cache := c\<rparr>) (fst e) = Inr (snd e)"
      unfolding cache_consistent_def by simp
    then show ?thesis by (simp add: Likelihood_log_likelihood_def)
  qed
  then show "compute_log_likelihood Likelihood_log_likelihood (self\<lparr>ll_cache := c\<rparr>) phi
      = Inl TypeError"
    by (simp add: compute_log_likelihood_def Likelihood_log_likelihood_def)
qed

text \<open>
  The theorem of C9 on the example instance of the base class.
\<close>

theorem abstract_log_likelihood_raises_witness:
  "Likelihood_log_likelihood example_likelihood (1/2) = Inl TypeError
     \<and> compute_log_likelihood Likelihood_log_likelihood example_likelihood (1/2) = Inl TypeError"
proof -
  have "cache_consistent Likelihood_log_likelihood (example_likelihood\<lparr>ll_cache := []\<rparr>)"
    by (simp add: cache_consistent_def)
  moreover have "example_likelihood\<lparr>ll_cache := []\<rparr> = example_likelihood"
    by (simp add: example_likelihood_def)
  ultimately show ?thesis
    using abstract_log_likelihood_raises [of example_likelihood "1/2"] by metis
qed

section \<open>Comprehensions and nested loops\<close>

lemma bind_err_assoc:
  "bind_err (bind_err m f) g = bind_err m (\<lambda>x. bind_err (f x) g)"
  by (cases m) simp_all

lemma bind_err_Inr_right [simp]: "bind_err m Inr = m"
  by (cases m) simp_all

lemma mapM_err_append:
  "mapM_err f (xs @ ys) =
     bind_err (mapM_err f xs) (\<lambda>a. bind_err (mapM_err f ys) (\<lambda>b. Inr (a @ b)))"
proof (induction xs)
  case Nil
  show ?case by simp
next
  case (Cons x xs)
  show ?case
    by (cases "f x"; cases "mapM_err f xs"; cases "mapM_err f ys") (simp_all add: Cons.IH)
qed

lemma mapM_err_map: "mapM_err f (map g xs) = mapM_err (\<lambda>x. f (g x)) xs"
  by (induction xs) simp_all

lemma mapM_err_cong:
  "(\<And>x. x \<in> set xs \<Longrightarrow> f x = g x) \<Longrightarrow> mapM_err f xs = mapM_err g xs"
  by (induction xs) simp_all

lemma mapM_err_all_Inr:
  "(\<And>x. x \<in> set xs \<Longrightarrow> f x = Inr (g x)) \<Longrightarrow> mapM_err f xs = Inr (map g xs)"
  by (induction xs) simp_all

lemma mapM_err_length: "mapM_err f xs = Inr ys \<Longrightarrow> length ys = length xs"
proof (induction xs arbitrary: ys)
  case Nil
  then show ?case by simp
next
  case (Cons x xs)
  then show ?case
    by (cases "f x"; cases "mapM_err f xs") auto
qed

text \<open>A doubly nested loop that appends to one list is a comprehension over the product.\<close>

lemma mapM_err_product:
  "mapM_err h (List.product xs ys) =
     bind_err (mapM_err (\<lambda>x. mapM_err (\<lambda>y. h (x, y)) ys) xs) (\<lambda>tss. Inr (concat tss))"
proof (induction xs)
  case Nil
  show ?case by simp
next
  case (Cons x xs)
  show ?case
    by (cases "mapM_err (\<lambda>y. h (x, y)) ys";
        cases "mapM_err (\<lambda>x. mapM_err (\<lambda>y. h (x, y)) ys) xs")
       (simp_all add: mapM_err_append mapM_err_map Cons.IH)
qed

lemma zip_as_indices:
  "zip xs ys = map (\<lambda>i. (xs ! i, ys ! i)) [0..<length (zip xs ys)]"
  by (rule nth_equalityI) simp_all

lemma Binomial_inner_loop_eq:
  "Binomial_inner_loop U self phi m_r lp_r ll ps =
     bind_err (mapM_err (\<lambda>p. bind_err (Likelihood_log_binomial_likelihood U self phi m_r (fst p))
                               (\<lambda>k. Inr (lp_r + snd p + k))) ps)
       (\<lambda>ts. Inr (ll @ ts))"
proof (induction ps arbitrary: ll)
  case Nil
  show ?case by simp
next
  case (Cons p ps)
  obtain m_v lp_v where p: "p = (m_v, lp_v)" by (cases p)
  show ?case
    unfolding p
    by (cases "Likelihood_log_binomial_likelihood U self phi m_r m_v";
        cases "mapM_err (\<lambda>p. bind_err (Likelihood_log_binomial_likelihood U self phi m_r (fst p))
                               (\<lambda>k. Inr (lp_r + snd p + k))) ps")
       (simp_all add: Cons.IH)
qed

lemma Binomial_outer_loop_eq:
  "Binomial_outer_loop U self phi ll ps =
     bind_err (mapM_err (\<lambda>q. mapM_err (\<lambda>p. bind_err
                    (Likelihood_log_binomial_likelihood U self phi (fst q) (fst p))
                    (\<lambda>k. Inr (snd q + snd p + k))) (zip (mu_v self) (log_pi_v self))) ps)
       (\<lambda>tss. Inr (ll @ concat tss))"
proof (induction ps arbitrary: ll)
  case Nil
  show ?case by simp
next
  case (Cons q ps)
  obtain m_r lp_r where q: "q = (m_r, lp_r)" by (cases q)
  let ?row = "\<lambda>q. mapM_err (\<lambda>p. bind_err
                    (Likelihood_log_binomial_likelihood U self phi (fst q) (fst p))
                    (\<lambda>k. Inr (snd q + snd p + k))) (zip (mu_v self) (log_pi_v self))"
  show ?case
    unfolding q
    by (cases "?row (m_r, lp_r)"; cases "mapM_err ?row ps")
       (simp_all add: Cons.IH Binomial_inner_loop_eq)
qed

lemma BinomialLikelihood_log_likelihood_product:
  "BinomialLikelihood_log_likelihood U self phi =
     bind_err (mapM_err (binomial_term U self phi)
        (List.product [0..<length (zip (mu_r self) (log_pi_r self))]
                      [0..<length (zip (mu_v self) (log_pi_v self))]))
       log_sum_exp"
proof -
  let ?row = "\<lambda>q. mapM_err (\<lambda>p. bind_err
                    (Likelihood_log_binomial_likelihood U self phi (fst q) (fst p))
                    (\<lambda>k. Inr (snd q + snd p + k))) (zip (mu_v self) (log_pi_v self))"
  let ?nr = "length (zip (mu_r self) (log_pi_r self))"
  let ?nv = "length (zip (mu_v self) (log_pi_v self))"
  have row: "?row (mu_r self ! i, log_pi_r self ! i)
      = mapM_err (\<lambda>j. binomial_term U self phi (i, j)) [0..<?nv]" for i
    by (subst zip_as_indices [of "mu_v self"])
       (simp add: mapM_err_map binomial_term_def del: length_zip)
  have "mapM_err ?row (zip (mu_r self) (log_pi_r self))
      = mapM_err (\<lambda>i. mapM_err (\<lambda>j. binomial_term U self phi (i, j)) [0..<?nv]) [0..<?nr]"
    by (subst zip_as_indices [of "mu_r self"])
       (simp only: mapM_err_map row)
  then show ?thesis
    unfolding BinomialLikelihood_log_likelihood_def Binomial_outer_loop_eq mapM_err_product
    by (simp add: bind_err_assoc)
qed

section \<open>The integration mesh\<close>

lemma py_range_nonpos: "n \<le> 0 \<Longrightarrow> py_range n = []"
  by (simp add: py_range_def)

lemma set_mesh_zero: "set_mesh 0 = Inl ZeroDivisionError"
  by (simp add: set_mesh_def py_range_def py_div_def)

lemma set_mesh_neg: "M < 0 \<Longrightarrow> set_mesh M = Inl ValueError"
  by (simp add: set_mesh_def py_range_nonpos py_log_def)

lemma knots_pos:
  assumes "0 < M"
  shows "mapM_err (\<lambda>i. py_div (real_of_int i) (real_of_int M)) (py_range (M + 1))
       = Inr (map (\<lambda>i. real_of_int i / real_of_int M) (py_range (M + 1)))"
  using assms by (intro mapM_err_all_Inr) (simp add: py_div_def)

lemma centres_pos:
  assumes "0 < M"
  shows "mapM_err (\<lambda>i. bind_err (getitem (map (\<lambda>i. real_of_int i / real_of_int M) (py_range (M + 1))) i) (\<lambda>l.
                bind_err (getitem (map (\<lambda>i. real_of_int i / real_of_int M) (py_range (M + 1))) (i + 1))
                  (\<lambda>r. Inr ((l + r) / 2))))
           (py_range M)
       = Inr (mesh_points M)"
proof -
  let ?knots = "map (\<lambda>i. real_of_int i / real_of_int M) (py_range (M + 1))"
  have len: "int (length ?knots) = M + 1"
    using assms by (simp add: py_range_def)
  have nth: "?knots ! k = real k / real_of_int M" if "k < nat (M + 1)" for k
    using that by (simp add: py_range_def)
  have get: "getitem ?knots (int k) = Inr (real k / real_of_int M)" if "k < nat (M + 1)" for k
    using that nth [OF that] len unfolding getitem_def by (simp del: length_map)
  have one: "bind_err (getitem ?knots (int k)) (\<lambda>l.
                bind_err (getitem ?knots (int k + 1)) (\<lambda>r. Inr ((l + r) / 2)))
      = Inr ((2 * real k + 1) / (2 * real_of_int M))" if "k < nat M" for k
  proof -
    have a: "k < nat (M + 1)" "Suc k < nat (M + 1)" using that by linarith+
    have "int k + 1 = int (Suc k)" by simp
    then show ?thesis
      using get [OF a(1)] get [OF a(2)] assms
      by (simp add: field_simps)
  qed
  have "mapM_err (\<lambda>i. bind_err (getitem ?knots i) (\<lambda>l.
                bind_err (getitem ?knots (i + 1)) (\<lambda>r. Inr ((l + r) / 2)))) (py_range M)
      = mapM_err (\<lambda>k. bind_err (getitem ?knots (int k)) (\<lambda>l.
                bind_err (getitem ?knots (int k + 1)) (\<lambda>r. Inr ((l + r) / 2)))) [0..<nat M]"
    by (simp add: py_range_def mapM_err_map)
  also have "\<dots> = Inr (map (\<lambda>k. (2 * real k + 1) / (2 * real_of_int M)) [0..<nat M])"
    by (rule mapM_err_all_Inr) (simp add: one)
  finally show ?thesis by (simp add: mesh_points_def)
qed

lemma set_mesh_pos:
  assumes "0 < M"
  shows "set_mesh M = Inr (mesh_points M, ln (1 / real_of_int M))"
  using assms
  by (simp add: set_mesh_def knots_pos centres_pos py_log_def ln_div)

lemma set_mesh_char:
  "set_mesh M = (if M = 0 then Inl ZeroDivisionError else if M < 0 then Inl ValueError
                 else Inr (mesh_points M, ln (1 / real_of_int M)))"
  by (simp add: set_mesh_zero set_mesh_neg set_mesh_pos)

lemma mesh_points_nth:
  assumes "i < nat M"
  shows "mesh_points M ! i = (2 * real i + 1) / (2 * real_of_int M)"
  using assms by (simp add: mesh_points_def)

lemma mesh_points_open_interval:
  assumes "m \<in> set (mesh_points M)"
  shows "0 < m \<and> m < 1"
proof -
  from assms obtain i where i: "i < nat M" and m: "m = (2 * real i + 1) / (2 * real_of_int M)"
    by (auto simp: mesh_points_def)
  from i have M: "0 < real_of_int M" and "real i + 1 \<le> real_of_int M"
    by linarith+
  then have "2 * real i + 1 < 2 * real_of_int M" by linarith
  with M show ?thesis unfolding m by simp
qed

lemma mesh_points_increasing: "sorted_wrt (<) (mesh_points M)"
proof -
  have "(2 * real i + 1) / (2 * real_of_int M) < (2 * real j + 1) / (2 * real_of_int M)"
    if "i < j" "j < nat M" for i j
  proof -
    from that have "0 < real_of_int M" by linarith
    with that(1) show ?thesis by (simp add: divide_strict_right_mono)
  qed
  then show ?thesis
    by (simp add: mesh_points_def sorted_wrt_iff_nth_less)
qed

section \<open>Instances built from a data point\<close>

lemma get_log_mix_weights_length:
  "get_log_mix_weights delta = Inr ws \<Longrightarrow> length ws = length delta"
  by (auto simp: get_log_mix_weights_char split: if_splits)

lemma Likelihood_init_fields:
  assumes "Likelihood_init U data_point = Inr base"
  shows "lk_a base = dp_a data_point" "lk_d base = dp_d data_point"
    "get_log_mix_weights (dp_delta_r data_point) = Inr (log_pi_r base)"
    "get_log_mix_weights (dp_delta_v data_point) = Inr (log_pi_v base)"
    "log_binomial_coefficient U (dp_d data_point) (dp_a data_point)
       = Inr (log_binomial_norm_const base)"
    "ll_cache base = []"
  using assms by (auto simp: Likelihood_init_Inr)

lemma BinomialLikelihood_init_Inr:
  "BinomialLikelihood_init U data_point = Inr self \<longleftrightarrow>
     (\<exists>base. Likelihood_init U data_point = Inr base
        \<and> self = \<lparr>lk_a = lk_a base, lk_d = lk_d base,
            log_pi_r = log_pi_r base, log_pi_v = log_pi_v base,
            log_binomial_norm_const = log_binomial_norm_const base,
            ll_cache = ll_cache base,
            mu_r = dp_mu_r data_point, mu_v = dp_mu_v data_point\<rparr>)"
  unfolding BinomialLikelihood_init_def
  by (cases "Likelihood_init U data_point") auto

lemma BinomialLikelihood_init_fields:
  assumes "BinomialLikelihood_init U data_point = Inr self"
  shows "lk_a self = dp_a data_point" "lk_d self = dp_d data_point"
    "get_log_mix_weights (dp_delta_r data_point) = Inr (log_pi_r self)"
    "get_log_mix_weights (dp_delta_v data_point) = Inr (log_pi_v self)"
    "log_binomial_coefficient U (dp_d data_point) (dp_a data_point)
       = Inr (log_binomial_norm_const self)"
    "ll_cache self = []"
    "mu_r self = dp_mu_r data_point" "mu_v self = dp_mu_v data_point"
  using assms Likelihood_init_fields [of U data_point]
  by (auto simp: BinomialLikelihood_init_Inr)

lemma kernel_of_instance:
  assumes "lk_a self = dp_a data_point" "lk_d self = dp_d data_point"
    "log_binomial_coefficient U (dp_d data_point) (dp_a data_point)
       = Inr (log_binomial_norm_const self)"
  shows "Likelihood_log_binomial_likelihood U self phi m_r m_v =
     bind_err (log_binomial_coefficient U (dp_d data_point) (dp_a data_point)) (\<lambda>c.
     bind_err (log_binomial_likelihood U (dp_a data_point) (dp_d data_point)
                 ((1 - phi) * m_r + phi * m_v)) (\<lambda>l. Inr (c + l)))"
  using assms by (simp add: Likelihood_log_binomial_likelihood_def)

lemma example_BinomialLikelihood_init:
  "BinomialLikelihood_init example_utils example_data_point = Inr example_binomial"
  unfolding BinomialLikelihood_init_def example_Likelihood_init
  by (simp add: example_binomial_def example_data_point_def)

section \<open>The binomial and the beta-binomial likelihood\<close>

lemma set_beta_params_loop_eq:
  "set_beta_params_loop s alphas betas ms =
     (alphas @ map (\<lambda>m. s * m) ms, betas @ map (\<lambda>m. s - s * m) ms)"
  by (induction ms arbitrary: alphas betas) (simp_all add: Let_def)

lemma set_beta_params_eq:
  "set_beta_params ms s = (map (\<lambda>m. s * m) ms, map (\<lambda>m. s - s * m) ms)"
  by (simp add: set_beta_params_def set_beta_params_loop_eq)

lemma BetaBinomialLikelihood_init_Inr:
  "BetaBinomialLikelihood_init U data_point M s = Inr self \<longleftrightarrow>
     (\<exists>base. Likelihood_init U data_point = Inr base \<and> 0 < M
        \<and> self = \<lparr>lk_a = lk_a base, lk_d = lk_d base,
            log_pi_r = log_pi_r base, log_pi_v = log_pi_v base,
            log_binomial_norm_const = log_binomial_norm_const base,
            ll_cache = ll_cache base,
            bb_mu_r = dp_mu_r data_point,
            alpha_v = map (\<lambda>m. s * m) (dp_mu_v data_point),
            beta_v = map (\<lambda>m. s - s * m) (dp_mu_v data_point),
            mesh = mesh_points M, log_xi = ln (1 / real_of_int M)\<rparr>)"
  unfolding BetaBinomialLikelihood_init_def set_beta_params_eq set_mesh_char
  by (cases "Likelihood_init U data_point") auto

lemma BetaBinomialLikelihood_init_fields:
  assumes "BetaBinomialLikelihood_init U data_point M s = Inr self"
  shows "lk_a self = dp_a data_point" "lk_d self = dp_d data_point"
    "get_log_mix_weights (dp_delta_r data_point) = Inr (log_pi_r self)"
    "get_log_mix_weights (dp_delta_v data_point) = Inr (log_pi_v self)"
    "log_binomial_coefficient U (dp_d data_point) (dp_a data_point)
       = Inr (log_binomial_norm_const self)"
    "ll_cache self = []"
    "bb_mu_r self = dp_mu_r data_point"
    "alpha_v self = map (\<lambda>m. s * m) (dp_mu_v data_point)"
    "beta_v self = map (\<lambda>m. s - s * m) (dp_mu_v data_point)"
    "mesh self = mesh_points M" "log_xi self = ln (1 / real_of_int M)" "0 < M"
  using assms Likelihood_init_fields [of U data_point]
  by (auto simp: BetaBinomialLikelihood_init_Inr)

lemma mesh_loop_eq:
  "mesh_loop U self phi m_r a b ls ms =
     bind_err (mapM_err (\<lambda>m. bind_err (Likelihood_log_binomial_likelihood U self phi m_r m) (\<lambda>k.
                    bind_err (log_beta_pdf U m a b) (\<lambda>p. Inr (k + p + log_xi self)))) ms)
       (\<lambda>ts. Inr (ls @ ts))"
proof (induction ms arbitrary: ls)
  case Nil
  show ?case by simp
next
  case (Cons m ms)
  show ?case
    by (cases "Likelihood_log_binomial_likelihood U self phi m_r m";
        cases "log_beta_pdf U m a b";
        cases "mapM_err (\<lambda>m. bind_err (Likelihood_log_binomial_likelihood U self phi m_r m) (\<lambda>k.
                    bind_err (log_beta_pdf U m a b) (\<lambda>p. Inr (k + p + log_xi self)))) ms")
       (simp_all add: Cons.IH)
qed

lemma log_beta_binomial_likelihood_eq:
  "log_beta_binomial_likelihood U self phi m_r a b =
     bind_err (mapM_err (\<lambda>m. bind_err (Likelihood_log_binomial_likelihood U self phi m_r m) (\<lambda>k.
                    bind_err (log_beta_pdf U m a b) (\<lambda>p. Inr (k + p + log_xi self)))) (mesh self))
       log_sum_exp"
  by (simp add: log_beta_binomial_likelihood_def mesh_loop_eq bind_err_assoc)

lemma BetaBinomial_inner_loop_eq:
  "BetaBinomial_inner_loop U self phi m_r lp_r ll ps =
     bind_err (mapM_err (\<lambda>p. bind_err
                  (log_beta_binomial_likelihood U self phi m_r (fst p) (fst (snd p)))
                  (\<lambda>k. Inr (lp_r + snd (snd p) + k))) ps)
       (\<lambda>ts. Inr (ll @ ts))"
proof (induction ps arbitrary: ll)
  case Nil
  show ?case by simp
next
  case (Cons p ps)
  obtain a b lp_v where p: "p = (a, b, lp_v)" by (cases p)
  show ?case
    unfolding p
    by (cases "log_beta_binomial_likelihood U self phi m_r a b";
        cases "mapM_err (\<lambda>p. bind_err
                  (log_beta_binomial_likelihood U self phi m_r (fst p) (fst (snd p)))
                  (\<lambda>k. Inr (lp_r + snd (snd p) + k))) ps")
       (simp_all add: Cons.IH)
qed

lemma BetaBinomial_outer_loop_eq:
  "BetaBinomial_outer_loop U self phi ll ps =
     bind_err (mapM_err (\<lambda>q. mapM_err (\<lambda>p. bind_err
                    (log_beta_binomial_likelihood U self phi (fst q) (fst p) (fst (snd p)))
                    (\<lambda>k. Inr (snd q + snd (snd p) + k)))
                  (zip (alpha_v self) (zip (beta_v self) (log_pi_v self)))) ps)
       (\<lambda>tss. Inr (ll @ concat tss))"
proof (induction ps arbitrary: ll)
  case Nil
  show ?case by simp
next
  case (Cons q ps)
  obtain m_r lp_r where q: "q = (m_r, lp_r)" by (cases q)
  let ?row = "\<lambda>q. mapM_err (\<lambda>p. bind_err
                    (log_beta_binomial_likelihood U self phi (fst q) (fst p) (fst (snd p)))
                    (\<lambda>k. Inr (snd q + snd (snd p) + k)))
                  (zip (alpha_v self) (zip (beta_v self) (log_pi_v self)))"
  show ?case
    unfolding q
    by (cases "?row (m_r, lp_r)"; cases "mapM_err ?row ps")
       (simp_all add: Cons.IH BetaBinomial_inner_loop_eq)
qed

lemma zip3_as_indices:
  "zip xs (zip ys zs) = map (\<lambda>i. (xs ! i, ys ! i, zs ! i)) [0..<length (zip xs (zip ys zs))]"
  by (rule nth_equalityI) simp_all

lemma BetaBinomialLikelihood_log_likelihood_product:
  assumes "mesh self = mesh_points M" and "log_xi self = ln (1 / real_of_int M)"
  shows "BetaBinomialLikelihood_log_likelihood U self phi =
     bind_err (mapM_err (beta_binomial_term U self M phi)
        (List.product [0..<length (zip (bb_mu_r self) (log_pi_r self))]
                      [0..<length (zip (alpha_v self) (zip (beta_v self) (log_pi_v self)))]))
       log_sum_exp"
proof -
  let ?row = "\<lambda>q. mapM_err (\<lambda>p. bind_err
                    (log_beta_binomial_likelihood U self phi (fst q) (fst p) (fst (snd p)))
                    (\<lambda>k. Inr (snd q + snd (snd p) + k)))
                  (zip (alpha_v self) (zip (beta_v self) (log_pi_v self)))"
  let ?nr = "length (zip (bb_mu_r self) (log_pi_r self))"
  let ?nv = "length (zip (alpha_v self) (zip (beta_v self) (log_pi_v self)))"
  have marg: "log_beta_binomial_likelihood U self phi m_r a b =
      bind_err (mapM_err (mesh_term U self M phi m_r a b) (mesh_points M)) log_sum_exp"
    for m_r a b
    unfolding log_beta_binomial_likelihood_eq assms mesh_term_def ..
  have row: "?row (bb_mu_r self ! i, log_pi_r self ! i)
      = mapM_err (\<lambda>j. beta_binomial_term U self M phi (i, j)) [0..<?nv]" for i
    by (subst zip3_as_indices [of "alpha_v self"])
       (simp add: mapM_err_map beta_binomial_term_def marg del: length_zip)
  have "mapM_err ?row (zip (bb_mu_r self) (log_pi_r self))
      = mapM_err (\<lambda>i. mapM_err (\<lambda>j. beta_binomial_term U self M phi (i, j)) [0..<?nv]) [0..<?nr]"
    by (subst zip_as_indices [of "bb_mu_r self"])
       (simp only: mapM_err_map row)
  then show ?thesis
    unfolding BetaBinomialLikelihood_log_likelihood_def BetaBinomial_outer_loop_eq
      mapM_err_product
    by (simp add: bind_err_assoc)
qed

lemma example_BetaBinomialLikelihood_init:
  "BetaBinomialLikelihood_init example_utils example_data_point 2 100 = Inr example_beta_binomial"
proof -
  have m: "mesh_points 2 = [1/4, 3/4]"
    by (simp add: mesh_points_def upt_rec)
  have i: "Likelihood_init example_utils example_data_point = Inr example_likelihood"
    by (simp add: example_Likelihood_init example_likelihood_def)
  show ?thesis
    unfolding BetaBinomialLikelihood_init_Inr
    by (rule exI [of _ example_likelihood], intro conjI, rule i)
       (simp_all add: example_likelihood_def example_beta_binomial_def
          example_data_point_def m)
qed

text \<open>
  Claim C1. For an instance of any of the three classes built from a data point, the
  shared kernel is
  \<open>log_binomial_coefficient (d, a) + log_binomial_likelihood (a, d, (1 - phi) mu_r + phi mu_v)\<close>,
  and \<^verbatim>\<open>BinomialLikelihood._log_likelihood(phi)\<close> is the log-sum-exp of the binomial
  terms of all pairs \<open>(i, j)\<close> of a reference and a variant component, in the order of
  the two nested loops. A failure of a helper is the failure of both sides.
\<close>

theorem binomial_log_likelihood_cross_product:
  assumes "BinomialLikelihood_init U data_point = Inr self"
  shows "Likelihood_log_binomial_likelihood U self phi m_r m_v =
           bind_err (log_binomial_coefficient U (dp_d data_point) (dp_a data_point)) (\<lambda>c.
           bind_err (log_binomial_likelihood U (dp_a data_point) (dp_d data_point)
                       ((1 - phi) * m_r + phi * m_v)) (\<lambda>l. Inr (c + l)))
     \<and> BinomialLikelihood_log_likelihood U self phi =
           bind_err (mapM_err (binomial_term U self phi)
              (List.product
                 [0..<min (length (dp_mu_r data_point)) (length (dp_delta_r data_point))]
                 [0..<min (length (dp_mu_v data_point)) (length (dp_delta_v data_point))]))
             log_sum_exp
     \<and> mu_r self = dp_mu_r data_point \<and> mu_v self = dp_mu_v data_point
     \<and> (\<forall>base. Likelihood_init U data_point = Inr base \<longrightarrow>
           Likelihood_log_binomial_likelihood U base phi m_r m_v =
             bind_err (log_binomial_coefficient U (dp_d data_point) (dp_a data_point)) (\<lambda>c.
             bind_err (log_binomial_likelihood U (dp_a data_point) (dp_d data_point)
                         ((1 - phi) * m_r + phi * m_v)) (\<lambda>l. Inr (c + l))))
     \<and> (\<forall>M s bb. BetaBinomialLikelihood_init U data_point M s = Inr bb \<longrightarrow>
           Likelihood_log_binomial_likelihood U bb phi m_r m_v =
             bind_err (log_binomial_coefficient U (dp_d data_point) (dp_a data_point)) (\<lambda>c.
             bind_err (log_binomial_likelihood U (dp_a data_point) (dp_d data_point)
                         ((1 - phi) * m_r + phi * m_v)) (\<lambda>l. Inr (c + l))))"
proof -
  note f = BinomialLikelihood_init_fields [OF assms]
  have base: "Likelihood_log_binomial_likelihood U base phi m_r m_v =
             bind_err (log_binomial_coefficient U (dp_d data_point) (dp_a data_point)) (\<lambda>c.
             bind_err (log_binomial_likelihood U (dp_a data_point) (dp_d data_point)
                         ((1 - phi) * m_r + phi * m_v)) (\<lambda>l. Inr (c + l)))"
    if "Likelihood_init U data_point = Inr base" for base
    using Likelihood_init_fields [OF that] by (intro kernel_of_instance)
  have bb: "Likelihood_log_binomial_likelihood U bb phi m_r m_v =
             bind_err (log_binomial_coefficient U (dp_d data_point) (dp_a data_point)) (\<lambda>c.
             bind_err (log_binomial_likelihood U (dp_a data_point) (dp_d data_point)
                         ((1 - phi) * m_r + phi * m_v)) (\<lambda>l. Inr (c + l)))"
    if "BetaBinomialLikelihood_init U data_point M s = Inr bb" for M s bb
    using BetaBinomialLikelihood_init_fields [OF that] by (intro kernel_of_instance)
  have lr: "length (log_pi_r self) = length (dp_delta_r data_point)"
    and lv: "length (log_pi_v self) = length (dp_delta_v data_point)"
    using f(3,4) by (simp_all add: get_log_mix_weights_length)
  have "BinomialLikelihood_log_likelihood U self phi =
           bind_err (mapM_err (binomial_term U self phi)
              (List.product
                 [0..<min (length (dp_mu_r data_point)) (length (dp_delta_r data_point))]
                 [0..<min (length (dp_mu_v data_point)) (length (dp_delta_v data_point))]))
             log_sum_exp"
    unfolding BinomialLikelihood_log_likelihood_product
    by (simp add: f(7,8) lr lv)
  with kernel_of_instance [OF f(1,2,5)] f(7,8) base bb show ?thesis by blast
qed

text \<open>
  The theorem of C1 on the example instance.
\<close>

theorem binomial_log_likelihood_cross_product_witness:
  "BinomialLikelihood_log_likelihood example_utils example_binomial (1/2) =
     bind_err (mapM_err (binomial_term example_utils example_binomial (1/2))
        (List.product
           [0..<min (length (dp_mu_r example_data_point)) (length (dp_delta_r example_data_point))]
           [0..<min (length (dp_mu_v example_data_point)) (length (dp_delta_v example_data_point))]))
       log_sum_exp
   \<and> mu_r example_binomial = dp_mu_r example_data_point"
  using binomial_log_likelihood_cross_product [OF example_BinomialLikelihood_init, of "1/2"]
  by simp

text \<open>
  Claim C2. For an instance built with precision \<open>s\<close> and mesh size \<open>M\<close>,
  \<open>alpha_v[j] = s * mu_v[j]\<close> and \<open>beta_v[j] = s - alpha_v[j]\<close> for every \<open>j\<close>, and
  \<^verbatim>\<open>BetaBinomialLikelihood._log_likelihood(phi)\<close> is the log-sum-exp, over all pairs
  \<open>(i, j)\<close> of a reference and a variant component, of \<open>log_pi_r[i] + log_pi_v[j]\<close> plus
  the log-sum-exp over the \<open>M\<close> mesh midpoints \<open>m\<close> of
  \<open>kernel (phi, mu_r[i], m) + log_beta_pdf (m, alpha_v[j], beta_v[j]) + log (1 / M)\<close>.
\<close>

theorem beta_binomial_log_likelihood_mesh_integration:
  assumes "BetaBinomialLikelihood_init U data_point M s = Inr self"
  shows "length (alpha_v self) = length (dp_mu_v data_point)
     \<and> length (beta_v self) = length (dp_mu_v data_point)
     \<and> (\<forall>j < length (dp_mu_v data_point).
           alpha_v self ! j = s * dp_mu_v data_point ! j
         \<and> beta_v self ! j = s - alpha_v self ! j)
     \<and> BetaBinomialLikelihood_log_likelihood U self phi =
           bind_err (mapM_err (beta_binomial_term U self M phi)
              (List.product
                 [0..<min (length (dp_mu_r data_point)) (length (dp_delta_r data_point))]
                 [0..<min (length (dp_mu_v data_point)) (length (dp_delta_v data_point))]))
             log_sum_exp
     \<and> bb_mu_r self = dp_mu_r data_point
     \<and> length (mesh_points M) = nat M \<and> 1 \<le> M"
proof -
  note f = BetaBinomialLikelihood_init_fields [OF assms]
  have lr: "length (log_pi_r self) = length (dp_delta_r data_point)"
    and lv: "length (log_pi_v self) = length (dp_delta_v data_point)"
    using f(3,4) by (simp_all add: get_log_mix_weights_length)
  have "BetaBinomialLikelihood_log_likelihood U self phi =
           bind_err (mapM_err (beta_binomial_term U self M phi)
              (List.product
                 [0..<min (length (dp_mu_r data_point)) (length (dp_delta_r data_point))]
                 [0..<min (length (dp_mu_v data_point)) (length (dp_delta_v data_point))]))
             log_sum_exp"
    unfolding BetaBinomialLikelihood_log_likelihood_product [OF f(10,11)]
    by (simp add: f(7,8,9) lr lv)
  then show ?thesis
    using f(12) by (simp add: f(7,8,9) mesh_points_def)
qed

text \<open>
  The theorem of C2 on the example instance.
\<close>

theorem beta_binomial_log_likelihood_mesh_integration_witness:
  "alpha_v example_beta_binomial ! 0 = 100 * dp_mu_v example_data_point ! 0
   \<and> beta_v example_beta_binomial ! 0 = 100 - alpha_v example_beta_binomial ! 0
   \<and> BetaBinomialLikelihood_log_likelihood example_utils example_beta_binomial (1/2) =
       bind_err (mapM_err (beta_binomial_term example_utils example_beta_binomial 2 (1/2))
          (List.product
             [0..<min (length (dp_mu_r example_data_point)) (length (dp_delta_r example_data_point))]
             [0..<min (length (dp_mu_v example_data_point)) (length (dp_delta_v example_data_point))]))
         log_sum_exp"
  using beta_binomial_log_likelihood_mesh_integration
    [OF example_BetaBinomialLikelihood_init, of "1/2"]
  by (simp add: example_data_point_def)

lemma log_beta_binomial_likelihood_pdf_on_mesh:
  assumes "\<forall>m \<in> set (mesh self). \<forall>a b. f m a b = log_beta_pdf U m a b"
  shows "log_beta_binomial_likelihood (U\<lparr>log_beta_pdf := f\<rparr>) self phi m_r a_v b_v
       = log_beta_binomial_likelihood U self phi m_r a_v b_v"
proof -
  have k: "Likelihood_log_binomial_likelihood (U\<lparr>log_beta_pdf := f\<rparr>) self phi m_r m
      = Likelihood_log_binomial_likelihood U self phi m_r m" for m
    by (simp add: Likelihood_log_binomial_likelihood_def)
  show ?thesis
    unfolding log_beta_binomial_likelihood_eq k
    by (rule arg_cong [where f = "\<lambda>x. bind_err x log_sum_exp"], rule mapM_err_cong)
       (simp add: assms)
qed

text \<open>
  Claim C10. An instance can be built exactly with a mesh size \<open>M \<ge> 1\<close>; its mesh has
  the \<open>M\<close> points \<open>(2 i + 1) / (2 M)\<close>, each strictly between 0 and 1, in strictly
  increasing order. \<^verbatim>\<open>_log_beta_binomial_likelihood\<close> calls \<^verbatim>\<open>log_beta_pdf\<close> at mesh
  points only: its result is the same for any other \<^verbatim>\<open>log_beta_pdf\<close> that agrees with
  the given one strictly between 0 and 1, whatever it does at 0 and at 1.
\<close>

theorem mesh_inside_open_unit_interval:
  assumes "BetaBinomialLikelihood_init U data_point M s = Inr self"
  shows "1 \<le> M \<and> length (mesh self) = nat M
     \<and> (\<forall>i < nat M. mesh self ! i = (2 * real i + 1) / (2 * real_of_int M))
     \<and> (\<forall>m \<in> set (mesh self). 0 < m \<and> m < 1)
     \<and> sorted_wrt (<) (mesh self)
     \<and> (\<forall>f. (\<forall>m a b. 0 < m \<and> m < 1 \<longrightarrow> f m a b = log_beta_pdf U m a b) \<longrightarrow>
           log_beta_binomial_likelihood (U\<lparr>log_beta_pdf := f\<rparr>) self phi m_r a_v b_v
             = log_beta_binomial_likelihood U self phi m_r a_v b_v)
     \<and> (\<forall>M'. (\<exists>r. set_mesh M' = Inr r) \<longleftrightarrow> 1 \<le> M')"
proof -
  note f = BetaBinomialLikelihood_init_fields [OF assms]
  have inside: "\<forall>m \<in> set (mesh self). 0 < m \<and> m < 1"
    unfolding f(10) using mesh_points_open_interval by blast
  have ext: "log_beta_binomial_likelihood (U\<lparr>log_beta_pdf := g\<rparr>) self phi m_r a_v b_v
             = log_beta_binomial_likelihood U self phi m_r a_v b_v"
    if "\<forall>m a b. 0 < m \<and> m < 1 \<longrightarrow> g m a b = log_beta_pdf U m a b" for g
    using that inside by (intro log_beta_binomial_likelihood_pdf_on_mesh) blast
  have ret: "(\<exists>r. set_mesh M' = Inr r) \<longleftrightarrow> 1 \<le> M'" for M'
    by (auto simp: set_mesh_char)
  have nth: "\<forall>i < nat M. mesh self ! i = (2 * real i + 1) / (2 * real_of_int M)"
    unfolding f(10) by (simp add: mesh_points_nth)
  have len: "length (mesh self) = nat M"
    unfolding f(10) by (simp add: mesh_points_def)
  have inc: "sorted_wrt (<) (mesh self)"
    unfolding f(10) by (rule mesh_points_increasing)
  from f(12) len nth inside inc ext ret show ?thesis by simp
qed

text \<open>
  The theorem of C10 on the example instance.
\<close>

theorem mesh_inside_open_unit_interval_witness:
  "length (mesh example_beta_binomial) = nat 2
   \<and> sorted_wrt (<) (mesh example_beta_binomial)
   \<and> mesh example_beta_binomial ! 1 = (2 * real 1 + 1) / (2 * real_of_int 2)"
  using mesh_inside_open_unit_interval [OF example_BetaBinomialLikelihood_init]
  by simp

section \<open>The discretised posterior\<close>

lemma bin_centres_loop_eq:
  "bin_centres_loop acc ps = acc @ map (\<lambda>p. (fst p + snd p) / 2) ps"
proof (induction ps arbitrary: acc)
  case Nil
  show ?case by simp
next
  case (Cons p ps)
  obtain l r where p: "p = (l, r)" by (cases p)
  show ?case unfolding p by (simp add: Cons.IH)
qed

lemma zip_butlast_tl:
  "zip (butlast xs) (tl xs) = map (\<lambda>k. (xs ! k, xs ! Suc k)) [0..<length xs - 1]"
  by (rule nth_equalityI) (simp_all add: nth_butlast nth_tl)

lemma bin_centres_code:
  assumes "1 \<le> N"
  shows "bin_centres_loop []
           (zip (butlast (map (\<lambda>x. real_of_int x * (1 / real_of_int N)) (py_range (N + 1))))
                (tl (map (\<lambda>x. real_of_int x * (1 / real_of_int N)) (py_range (N + 1)))))
       = bin_centres N"
proof -
  let ?e = "map (\<lambda>x. real_of_int x * (1 / real_of_int N)) (py_range (N + 1))"
  have len: "length ?e - 1 = nat N"
    using assms by (simp add: py_range_def)
  have nth: "?e ! k = real k / real_of_int N" if "k < nat (N + 1)" for k
    using that by (simp add: py_range_def)
  have "map (\<lambda>p. (fst p + snd p) / 2) (zip (butlast ?e) (tl ?e))
      = map (\<lambda>k. (?e ! k + ?e ! Suc k) / 2) [0..<nat N]"
    unfolding zip_butlast_tl len by (simp add: comp_def)
  also have "\<dots> = map (\<lambda>k. (real k + 1 / 2) / real_of_int N) [0..<nat N]"
  proof (rule map_cong [OF refl])
    fix k assume "k \<in> set [0..<nat N]"
    then have "k < nat (N + 1)" "Suc k < nat (N + 1)" by auto
    then show "(?e ! k + ?e ! Suc k) / 2 = (real k + 1 / 2) / real_of_int N"
      using assms by (simp only: nth) (simp add: field_simps)
  qed
  finally show ?thesis
    by (simp add: bin_centres_loop_eq bin_centres_def)
qed

lemma bin_centres_increasing: "sorted_wrt (<) (bin_centres N)"
proof -
  have "(real i + 1 / 2) / real_of_int N < (real j + 1 / 2) / real_of_int N"
    if "i < j" "j < nat N" for i j
  proof -
    from that have "0 < real_of_int N" by linarith
    with that(1) show ?thesis by (simp add: divide_strict_right_mono)
  qed
  then show ?thesis
    by (simp add: bin_centres_def sorted_wrt_iff_nth_less)
qed

lemma bin_centres_distinct: "distinct (bin_centres N)"
  using bin_centres_increasing [of N] strict_sorted_iff by blast

lemma sum_list_exp_pos:
  fixes xs :: "real list" and h :: "real \<Rightarrow> real"
  assumes "xs \<noteq> []"
  shows "0 < (\<Sum>x \<leftarrow> xs. exp (h x))"
proof -
  from assms obtain a ys where xs: "xs = a # ys" by (cases xs) auto
  have "0 \<le> (\<Sum>x \<leftarrow> ys. exp (h x))"
    by (induction ys) (simp_all add: add_nonneg_nonneg)
  then show ?thesis
    unfolding xs by (simp add: add_pos_nonneg)
qed

lemma normalised:
  fixes L :: "real \<Rightarrow> real"
  assumes "xs \<noteq> []" and "0 < w"
  shows "(\<Sum>phi \<leftarrow> xs. exp (L phi - ln (\<Sum>x \<leftarrow> xs. exp (L x + ln w))) * w) = 1"
proof -
  let ?S = "\<Sum>x \<leftarrow> xs. exp (L x)"
  have S: "0 < ?S" by (rule sum_list_exp_pos [OF assms(1)])
  have "(\<Sum>x \<leftarrow> xs. exp (L x + ln w)) = ?S * w"
    using assms(2) by (simp add: exp_add sum_list_mult_const)
  moreover have "exp (L phi - ln (?S * w)) * w = exp (L phi) * (1 / ?S)" for phi
    using S assms(2) by (simp add: exp_diff)
  ultimately have "(\<Sum>phi \<leftarrow> xs. exp (L phi - ln (\<Sum>x \<leftarrow> xs. exp (L x + ln w))) * w)
      = (\<Sum>phi \<leftarrow> xs. exp (L phi) * (1 / ?S))"
    by simp
  also have "\<dots> = ?S * (1 / ?S)"
    by (simp only: sum_list_mult_const)
  also have "\<dots> = 1" using S by simp
  finally show ?thesis .
qed

lemma get_independent_posterior_eq:
  assumes init: "BinomialLikelihood_init U data_point = Inr self" and N: "1 \<le> N"
    and L: "\<forall>phi \<in> set (bin_centres N). BinomialLikelihood_log_likelihood U self phi = Inr (L phi)"
  shows "get_independent_posterior U data_point N =
     Inr (map (\<lambda>phi. (phi, exp (L phi
            - ln (\<Sum>x \<leftarrow> bin_centres N. exp (L x + ln (1 / real_of_int N))))))
          (bin_centres N))"
proof -
  let ?f = "BinomialLikelihood_log_likelihood U"
  let ?w = "1 / real_of_int N"
  have w: "0 < ?w" using N by simp
  have ne: "bin_centres N \<noteq> []" using N by (simp add: bin_centres_def)
  have fresh: "ll_cache self = []"
    by (rule BinomialLikelihood_init_fields(6) [OF init])
  have any_cache: "\<forall>c. \<forall>phi \<in> set (bin_centres N). ?f (self\<lparr>ll_cache := c\<rparr>) phi = Inr (L phi)"
    using L by (simp add: Binomial_ignores_cache [unfolded ignores_cache_def, rule_format])
  have run: "compute_all ?f self [] (bin_centres N) =
      Inr (map L (bin_centres N),
           self\<lparr>ll_cache := drop (length (bin_centres N) - 1000)
                              (map (\<lambda>p. (p, L p)) (bin_centres N))\<rparr>)"
    by (rule compute_all_fresh [OF any_cache bin_centres_distinct fresh])
  have logs: "mapM_err (\<lambda>x. bind_err (py_log ?w) (\<lambda>l. Inr (x + l))) ll
      = Inr (map (\<lambda>x. x + ln ?w) ll)" for ll
    using w by (intro mapM_err_all_Inr) (simp add: py_log_def)
  have lse: "log_sum_exp (map (\<lambda>x. L x + ln ?w) (bin_centres N))
      = Inr (ln (\<Sum>x \<leftarrow> bin_centres N. exp (L x + ln ?w)))"
    using ne by (simp add: log_sum_exp_def comp_def)
  have d: "py_div 1 (real_of_int N) = Inr ?w"
    using N by (simp add: py_div_def)
  show ?thesis
    unfolding get_independent_posterior_def init d bind_err_simps Let_def
      bin_centres_code [OF N] run logs
    by (simp add: comp_def lse zip_map2 zip_same_conv_map del: ln_div)
qed

lemma kernel_ignores_log_beta_pdf:
  "Likelihood_log_binomial_likelihood (U\<lparr>log_beta_pdf := f\<rparr>) self phi m_r m_v
     = Likelihood_log_binomial_likelihood U self phi m_r m_v"
  by (simp add: Likelihood_log_binomial_likelihood_def)

lemma binomial_term_ignores_log_beta_pdf:
  "binomial_term (U\<lparr>log_beta_pdf := f\<rparr>) = binomial_term U"
  by (intro ext) (simp add: binomial_term_def kernel_ignores_log_beta_pdf)

lemma Binomial_ignores_log_beta_pdf:
  "BinomialLikelihood_log_likelihood (U\<lparr>log_beta_pdf := f\<rparr>) = BinomialLikelihood_log_likelihood U"
  by (intro ext)
     (simp add: BinomialLikelihood_log_likelihood_product binomial_term_ignores_log_beta_pdf)

lemma BinomialLikelihood_init_ignores_log_beta_pdf:
  "BinomialLikelihood_init (U\<lparr>log_beta_pdf := f\<rparr>) = BinomialLikelihood_init U"
  by (intro ext) (simp add: BinomialLikelihood_init_def Likelihood_init_def)

lemma get_independent_posterior_ignores_log_beta_pdf:
  "get_independent_posterior (U\<lparr>log_beta_pdf := f\<rparr>) data_point N
     = get_independent_posterior U data_point N"
  unfolding get_independent_posterior_def Binomial_ignores_log_beta_pdf
    BinomialLikelihood_init_ignores_log_beta_pdf ..




end
